theory Spec2Isabelle
  imports Complex_Main "HOL-Library.Sublist"
begin

section \<open>Python strings\<close>

text \<open>
  A Python \<open>str\<close> is a sequence of Unicode code points and \<open>len\<close> counts code points,
  so a character is modelled by its code point and a string by the list of them.
  \<open>lit\<close> turns a literal of the source into such a list.
\<close>

type_synonym pychar = nat
type_synonym pystr = "pychar list"

definition lit :: "string \<Rightarrow> pystr" where
  "lit s = map of_char s"

text \<open>
  \<open>str.isspace\<close> on one character, which is also what \<open>str.strip()\<close> removes and what
  \<open>\s\<close> matches in a \<open>str\<close> pattern: the code points 0x09-0x0D, 0x1C-0x20, 0x85, 0xA0,
  0x1680, 0x2000-0x200A, 0x2028, 0x2029, 0x202F, 0x205F and 0x3000.
\<close>

definition is_space :: "pychar \<Rightarrow> bool" where
  "is_space c \<longleftrightarrow>
     (9 \<le> c \<and> c \<le> 13) \<or> (28 \<le> c \<and> c \<le> 32) \<or> c = 133 \<or> c = 160 \<or> c = 5760 \<or>
     (8192 \<le> c \<and> c \<le> 8202) \<or> c = 8232 \<or> c = 8233 \<or> c = 8239 \<or> c = 8287 \<or> c = 12288"

definition py_strip :: "pystr \<Rightarrow> pystr" where
  "py_strip s = rev (dropWhile is_space (rev (dropWhile is_space s)))"

text \<open>\<open>s[-k:]\<close> for a positive \<open>k\<close>: the last \<open>k\<close> characters, all of \<open>s\<close> when it is shorter.\<close>

definition py_last_chars :: "int \<Rightarrow> pystr \<Rightarrow> pystr" where
  "py_last_chars k s = drop (length s - nat k) s"

text \<open>The paragraph separator \<open>"\n\n"\<close> and the sentence joiner \<open>" "\<close>.\<close>

definition para_sep :: pystr where
  "para_sep = [10, 10]"

definition sentence_sep :: pystr where
  "sentence_sep = [32]"

text \<open>Puts a character in front of the first piece of a split.\<close>

fun cons_first :: "pychar \<Rightarrow> pystr list \<Rightarrow> pystr list" where
  "cons_first c [] = [[c]]"
| "cons_first c (p # ps) = (c # p) # ps"

text \<open>
  \<open>text.split("\n\n")\<close>: the pieces between the non-overlapping occurrences of the
  separator, found from left to right; there is always at least one piece.
\<close>

fun split_paragraphs :: "pystr \<Rightarrow> pystr list" where
  "split_paragraphs [] = [[]]"
| "split_paragraphs [c] = [[c]]"
| "split_paragraphs (c # d # cs) =
     (if c = 10 \<and> d = 10 then [] # split_paragraphs cs
      else cons_first c (split_paragraphs (d # cs)))"

section \<open>Sentence splitting\<close>

text \<open>
  \<open>re.split(r'(?<=[.!?])\s+', text)\<close>: a separator is a maximal run of whitespace that
  starts right after one of \<open>.\<close>, \<open>!\<close>, \<open>?\<close>. The flag says whether the character before
  the current position is one of the three.
\<close>

definition is_terminator :: "pychar \<Rightarrow> bool" where
  "is_terminator c \<longleftrightarrow> c = 46 \<or> c = 33 \<or> c = 63"

function re_split_sentences :: "bool \<Rightarrow> pystr \<Rightarrow> pystr list" where
  "re_split_sentences after [] = [[]]"
| "re_split_sentences after (c # cs) =
     (if after \<and> is_space c then [] # re_split_sentences False (dropWhile is_space cs)
      else cons_first c (re_split_sentences (is_terminator c) cs))"
  by pat_completeness auto
termination
  by (relation "measure (\<lambda>(a, s). length s)")
     (auto simp: length_dropWhile_le less_Suc_eq_le)

text \<open>\<open>PDFProcessor._split_sentences\<close>: the stripped pieces that are not blank.\<close>

definition split_sentences :: "pystr \<Rightarrow> pystr list" where
  "split_sentences text =
     map py_strip (filter (\<lambda>s. py_strip s \<noteq> []) (re_split_sentences False text))"

section \<open>Chunking\<close>

text \<open>
  The paragraph loop of \<open>PDFProcessor.chunk_text\<close>, one paragraph per step, on the pair
  of the chunks flushed so far and the running buffer \<open>current_chunk\<close>.
\<close>

definition para_step :: "int \<Rightarrow> int \<Rightarrow> pystr list \<times> pystr \<Rightarrow> pystr \<Rightarrow> pystr list \<times> pystr" where
  "para_step chunk_size chunk_overlap st para0 =
     (let chunks = fst st; current_chunk = snd st; para = py_strip para0 in
      if para = [] then (chunks, current_chunk)
      else if current_chunk \<noteq> [] \<and> int (length current_chunk) + int (length para) > chunk_size
      then (chunks @ [py_strip current_chunk],
            if chunk_overlap > 0 \<and> current_chunk \<noteq> []
            then py_last_chars chunk_overlap current_chunk @ para_sep @ para
            else para)
      else if current_chunk \<noteq> [] then (chunks, current_chunk @ para_sep @ para)
      else (chunks, para))"

text \<open>The list \<open>chunks\<close> after the paragraph loop and the flush of the last buffer.\<close>

definition paragraph_chunks :: "pystr \<Rightarrow> int \<Rightarrow> int \<Rightarrow> pystr list" where
  "paragraph_chunks text chunk_size chunk_overlap =
     (let st = foldl (para_step chunk_size chunk_overlap) ([], []) (split_paragraphs text);
          chunks = fst st; current_chunk = snd st
      in if py_strip current_chunk \<noteq> [] then chunks @ [py_strip current_chunk] else chunks)"

text \<open>
  The sentence loop, one sentence per step, on the pair of the chunks emitted so far and
  the running buffer \<open>temp_chunk\<close>.
\<close>

definition sentence_step :: "int \<Rightarrow> pystr list \<times> pystr \<Rightarrow> pystr \<Rightarrow> pystr list \<times> pystr" where
  "sentence_step chunk_size st sentence =
     (let out = fst st; temp_chunk = snd st in
      if temp_chunk \<noteq> [] \<and> int (length temp_chunk) + int (length sentence) > chunk_size
      then (out @ [py_strip temp_chunk], sentence)
      else (out, temp_chunk @ (if temp_chunk \<noteq> [] then sentence_sep else []) @ sentence))"

text \<open>What one chunk of the paragraph stage contributes to \<open>final_chunks\<close>.\<close>

definition resplit_chunk :: "int \<Rightarrow> pystr \<Rightarrow> pystr list" where
  "resplit_chunk chunk_size chunk =
     (if int (length chunk) \<le> chunk_size then [chunk]
      else (let st = foldl (sentence_step chunk_size) ([], []) (split_sentences chunk);
                out = fst st; temp_chunk = snd st
            in if py_strip temp_chunk \<noteq> [] then out @ [py_strip temp_chunk] else out))"

definition chunk_text :: "pystr \<Rightarrow> int \<Rightarrow> int \<Rightarrow> pystr list" where
  "chunk_text text chunk_size chunk_overlap =
     (if text = [] \<or> py_strip text = [] then []
      else concat (map (resplit_chunk chunk_size)
                       (paragraph_chunks text chunk_size chunk_overlap)))"

section \<open>Values, exceptions and formatting\<close>

text \<open>The values a metadata dictionary holds, and a dictionary as its list of items.\<close>

datatype pyval = PyInt int | PyStr pystr

type_synonym pydict = "(pystr \<times> pyval) list"

text \<open>
  A raised exception with what \<open>str(e)\<close> gives; \<open>EngineError\<close> is one raised by the vector
  database, \<open>IndexError\<close> an index out of range.
\<close>

datatype py_exception = Exception pystr | EngineError pystr | IndexError

fun exc_str :: "py_exception \<Rightarrow> pystr" where
  "exc_str (Exception m) = m"
| "exc_str (EngineError m) = m"
| "exc_str IndexError = lit ''list index out of range''"

definition py_index :: "'a list \<Rightarrow> nat \<Rightarrow> py_exception + 'a" where
  "py_index xs i = (if i < length xs then Inr (xs ! i) else Inl IndexError)"

fun nat_digits :: "nat \<Rightarrow> pystr" where
  "nat_digits n = (if n < 10 then [48 + n] else nat_digits (n div 10) @ [48 + n mod 10])"

definition py_str_int :: "int \<Rightarrow> pystr" where
  "py_str_int i = (if i < 0 then 45 # nat_digits (nat (- i)) else nat_digits (nat i))"

fun py_format :: "pyval \<Rightarrow> pystr" where
  "py_format (PyInt i) = py_str_int i"
| "py_format (PyStr s) = s"

fun truthy :: "pyval \<Rightarrow> bool" where
  "truthy (PyInt i) = (i \<noteq> 0)"
| "truthy (PyStr s) = (s \<noteq> [])"

fun py_join :: "pystr \<Rightarrow> pystr list \<Rightarrow> pystr" where
  "py_join sep [] = []"
| "py_join sep [x] = x"
| "py_join sep (x # y # ys) = x @ sep @ py_join sep (y # ys)"

text \<open>\<open>xs[-k:]\<close> on a list, for a positive \<open>k\<close>.\<close>

definition py_last_items :: "nat \<Rightarrow> 'a list \<Rightarrow> 'a list" where
  "py_last_items k xs = drop (length xs - k) xs"

text \<open>The results of a list of computations, up to the first one that raises.\<close>

fun collect :: "(py_exception + 'a) list \<Rightarrow> py_exception + 'a list" where
  "collect [] = Inr []"
| "collect (Inl e # rs) = Inl e"
| "collect (Inr x # rs) = (case collect rs of Inl e \<Rightarrow> Inl e | Inr xs \<Rightarrow> Inr (x # xs))"

section \<open>Text extraction\<close>

text \<open>
  \<open>PDFProcessor.extract_text\<close>. The PDF library is outside the repository: the file is
  given by what opening and reading it yields, an exception or the text of each page.
\<close>

definition extract_text :: "py_exception + pystr list \<Rightarrow> py_exception + (pystr \<times> int)" where
  "extract_text pdf =
     (case pdf of
        Inl e \<Rightarrow> Inl (Exception (lit ''Failed to process PDF: '' @ exc_str e))
      | Inr page_texts \<Rightarrow>
          (let full_text =
                 concat (map (\<lambda>(page_num, text).
                                if py_strip text \<noteq> []
                                then [lit ''[Page '' @ py_str_int (int page_num + 1) @ lit '']'' @ [10] @ text]
                                else [])
                             (zip [0 ..< length page_texts] page_texts))
           in Inr (py_join para_sep full_text, int (length page_texts))))"

section \<open>The vector store\<close>

record 'v entry =
  entry_id :: pystr
  entry_embedding :: 'v
  entry_document :: pystr
  entry_metadata :: pydict

text \<open>
  The database client holds the collections by name. A collection object is modelled by
  the name of the collection it refers to.
\<close>

type_synonym 'v chroma_client = "pystr \<rightharpoonup> 'v entry list"

record 'o query_result =
  documents :: "pystr list list"
  distances :: "'o list list option"
  metadatas :: "pydict list list option"

text \<open>
  The vector database engine is a library outside the repository, and neither the
  repository nor the specification says which collection names the engine accepts or
  which numbers of results it agrees to return. Both are parameters of the model: the
  exception the engine raises for a name, and for a requested number of results, if it
  raises one.
\<close>

record engine =
  name_error :: "pystr \<Rightarrow> py_exception option"
  n_results_error :: "int \<Rightarrow> py_exception option"

text \<open>
  Modelled from the spec: the vector database engine is a library outside the
  repository. Looking up a collection that does not exist raises.
\<close>

definition client_get_collection :: "'v chroma_client \<Rightarrow> pystr \<Rightarrow> py_exception + pystr" where
  "client_get_collection cl name =
     (case cl name of
        None \<Rightarrow> Inl (EngineError (lit ''Collection '' @ name @ lit '' does not exist.''))
      | Some es \<Rightarrow> Inr name)"

text \<open>
  Modelled from the spec: the vector database engine is a library outside the
  repository. Creating a collection raises when the engine refuses the name or has a
  collection of that name already, and adds an empty collection under the name otherwise.
\<close>

definition client_create_collection ::
  "engine \<Rightarrow> 'v chroma_client \<Rightarrow> pystr \<Rightarrow> (py_exception + pystr) \<times> 'v chroma_client" where
  "client_create_collection eng cl name =
     (case name_error eng name of
        Some e \<Rightarrow> (Inl e, cl)
      | None \<Rightarrow>
          (case cl name of
             None \<Rightarrow> (Inr name, cl(name \<mapsto> []))
           | Some es \<Rightarrow>
               (Inl (EngineError (lit ''Collection '' @ name @ lit '' already exists'')), cl)))"

text \<open>
  Modelled from the spec: the vector database engine is a library outside the
  repository. Deleting a collection removes it, and raises when there is none.
\<close>

definition client_delete_collection ::
  "'v chroma_client \<Rightarrow> pystr \<Rightarrow> py_exception + 'v chroma_client" where
  "client_delete_collection cl name =
     (case cl name of
        None \<Rightarrow> Inl (EngineError (lit ''Collection '' @ name @ lit '' does not exist.''))
      | Some es \<Rightarrow> Inr (cl(name := None)))"

text \<open>
  Modelled from the spec: the vector database engine is a library outside the
  repository. The number of entries of a collection.
\<close>

definition collection_count :: "'v chroma_client \<Rightarrow> pystr \<Rightarrow> py_exception + int" where
  "collection_count cl h =
     (case cl h of
        None \<Rightarrow> Inl (EngineError (lit ''Collection '' @ h @ lit '' does not exist.''))
      | Some es \<Rightarrow> Inr (int (length es)))"

text \<open>
  Modelled from the spec: the vector database engine is a library outside the
  repository. Adding stores one entry per chunk, after those already there; the four lists
  must have one length.
\<close>

definition collection_add ::
  "'v chroma_client \<Rightarrow> pystr \<Rightarrow> 'v list \<Rightarrow> pystr list \<Rightarrow> pydict list \<Rightarrow> pystr list
     \<Rightarrow> py_exception + 'v chroma_client" where
  "collection_add cl h embeddings docs metas ids =
     (case cl h of
        None \<Rightarrow> Inl (EngineError (lit ''Collection '' @ h @ lit '' does not exist.''))
      | Some es \<Rightarrow>
          if length embeddings = length ids \<and> length docs = length ids \<and> length metas = length ids
          then Inr (cl(h \<mapsto> es @ map (\<lambda>i. \<lparr>entry_id = ids ! i, entry_embedding = embeddings ! i,
                                            entry_document = docs ! i, entry_metadata = metas ! i\<rparr>)
                                     [0 ..< length ids]))
          else Inl (EngineError (lit ''Unequal lengths'')))"

text \<open>
  Modelled from the spec: the vector database engine is a library outside the
  repository. A query raises when the engine refuses the requested number of results;
  otherwise it returns the \<open>n_results\<close> entries nearest to the query vector by the
  store's metric, nearest first, with their distances and metadata.
\<close>

definition collection_query ::
  "engine \<Rightarrow> ('v \<Rightarrow> 'v \<Rightarrow> 'o::linorder) \<Rightarrow> 'v chroma_client \<Rightarrow> pystr \<Rightarrow> 'v \<Rightarrow> int
     \<Rightarrow> py_exception + 'o query_result" where
  "collection_query eng distance cl h query_embedding n_results =
     (case cl h of
        None \<Rightarrow> Inl (EngineError (lit ''Collection '' @ h @ lit '' does not exist.''))
      | Some es \<Rightarrow>
          (case n_results_error eng n_results of
             Some e \<Rightarrow> Inl e
           | None \<Rightarrow>
               (let nearest = take (nat n_results)
                                (sort_key (\<lambda>e. distance query_embedding (entry_embedding e)) es)
                in Inr \<lparr>documents = [map entry_document nearest],
                        distances =
                          Some [map (\<lambda>e. distance query_embedding (entry_embedding e)) nearest],
                        metadatas = Some [map entry_metadata nearest]\<rparr>)))"

text \<open>
  \<open>VectorStore\<close>: the database client and the dictionary \<open>self.collections\<close> of the
  collection objects already obtained.
\<close>

record 'v vector_store =
  client :: "'v chroma_client"
  collections :: "pystr \<rightharpoonup> pystr"

definition create_collection ::
  "engine \<Rightarrow> 'v vector_store \<Rightarrow> pystr \<Rightarrow> (py_exception + pystr) \<times> 'v vector_store" where
  "create_collection eng vs document_id =
     (case collections vs document_id of
        Some collection \<Rightarrow> (Inr collection, vs)
      | None \<Rightarrow>
          (case client_get_collection (client vs) document_id of
             Inr collection \<Rightarrow>
               (Inr collection, vs\<lparr>collections := (collections vs)(document_id \<mapsto> collection)\<rparr>)
           | Inl e \<Rightarrow>
               (case client_create_collection eng (client vs) document_id of
                  (Inl e', cl') \<Rightarrow> (Inl e', vs\<lparr>client := cl'\<rparr>)
                | (Inr collection, cl') \<Rightarrow>
                    (Inr collection,
                     vs\<lparr>client := cl',
                        collections := (collections vs)(document_id \<mapsto> collection)\<rparr>))))"

text \<open>
  \<open>VectorStore.add_documents\<close>. The embedding model is outside the repository and is the
  function \<open>encode\<close>.
\<close>

definition add_documents ::
  "engine \<Rightarrow> (pystr \<Rightarrow> 'v) \<Rightarrow> 'v vector_store \<Rightarrow> pystr \<Rightarrow> pystr list \<Rightarrow> pydict list option
     \<Rightarrow> (py_exception + unit) \<times> 'v vector_store" where
  "add_documents eng encode vs document_id chunks metadatas0 =
     (if chunks = [] then (Inr (), vs)
      else
        (case create_collection eng vs document_id of
           (Inl e, vs') \<Rightarrow> (Inl e, vs')
         | (Inr collection, vs') \<Rightarrow>
             (let embeddings = map encode chunks;
                  ids = map (\<lambda>i. document_id @ lit ''_chunk_'' @ py_str_int (int i))
                            [0 ..< length chunks];
                  metadatas1 =
                    (case metadatas0 of
                       Some ms \<Rightarrow> ms
                     | None \<Rightarrow>
                         map (\<lambda>i. [(lit ''chunk_index'', PyInt (int i)),
                                   (lit ''document_id'', PyStr document_id)])
                             [0 ..< length chunks])
              in case collection_add (client vs') collection embeddings chunks metadatas1 ids of
                   Inl e \<Rightarrow> (Inl e, vs')
                 | Inr cl' \<Rightarrow> (Inr (), vs'\<lparr>client := cl'\<rparr>))))"

record 'o search_result =
  content :: pystr
  score :: "'o option"
  metadata :: pydict

text \<open>One entry of \<open>formatted_results\<close> in \<open>VectorStore.search\<close>.\<close>

definition format_result :: "'o query_result \<Rightarrow> nat \<Rightarrow> py_exception + 'o search_result" where
  "format_result results i =
     (case py_index (documents results) 0 of
        Inl e \<Rightarrow> Inl e
      | Inr docs \<Rightarrow>
     (case py_index docs i of
        Inl e \<Rightarrow> Inl e
      | Inr doc \<Rightarrow>
     (case (case distances results of
              None \<Rightarrow> Inr None
            | Some ds \<Rightarrow>
                if ds = [] then Inr None
                else (case py_index ds 0 of
                        Inl e \<Rightarrow> Inl e
                      | Inr d0 \<Rightarrow> (case py_index d0 i of Inl e \<Rightarrow> Inl e | Inr d \<Rightarrow> Inr (Some d)))) of
        Inl e \<Rightarrow> Inl e
      | Inr sc \<Rightarrow>
     (case (case metadatas results of
              None \<Rightarrow> Inr []
            | Some ms \<Rightarrow>
                if ms = [] then Inr []
                else (case py_index ms 0 of
                        Inl e \<Rightarrow> Inl e
                      | Inr m0 \<Rightarrow> py_index m0 i)) of
        Inl e \<Rightarrow> Inl e
      | Inr md \<Rightarrow> Inr \<lparr>content = doc, score = sc, metadata = md\<rparr>))))"

definition format_results :: "'o query_result \<Rightarrow> py_exception + 'o search_result list" where
  "format_results results =
     (if documents results \<noteq> [] \<and> length (hd (documents results)) > 0
      then collect (map (format_result results) [0 ..< length (hd (documents results))])
      else Inr [])"

text \<open>
  \<open>VectorStore.search\<close>. Only the access to the collection is inside the \<open>try\<close>; an
  exception of the query itself goes to the caller.
\<close>

definition search ::
  "engine \<Rightarrow> (pystr \<Rightarrow> 'v) \<Rightarrow> ('v \<Rightarrow> 'v \<Rightarrow> 'o::linorder) \<Rightarrow> 'v vector_store \<Rightarrow> pystr \<Rightarrow> pystr \<Rightarrow> int
     \<Rightarrow> (py_exception + 'o search_result list) \<times> 'v vector_store" where
  "search eng encode distance vs document_id query top_k =
     (case create_collection eng vs document_id of
        (Inl e, vs') \<Rightarrow> (Inr [], vs')
      | (Inr collection, vs') \<Rightarrow>
          (let query_embedding = encode query in
           case collection_count (client vs') collection of
             Inl e \<Rightarrow> (Inl e, vs')
           | Inr cnt \<Rightarrow>
               (case collection_query eng distance (client vs') collection query_embedding
                       (min top_k cnt) of
                  Inl e \<Rightarrow> (Inl e, vs')
                | Inr results \<Rightarrow> (format_results results, vs'))))"

definition delete_document :: "'v vector_store \<Rightarrow> pystr \<Rightarrow> bool \<times> 'v vector_store" where
  "delete_document vs document_id =
     (let vs1 = (if document_id \<in> dom (collections vs)
                 then vs\<lparr>collections := (collections vs)(document_id := None)\<rparr>
                 else vs)
      in case client_delete_collection (client vs1) document_id of
           Inl e \<Rightarrow> (False, vs1)
         | Inr cl' \<Rightarrow> (True, vs1\<lparr>client := cl'\<rparr>))"

section \<open>The generator\<close>

datatype ExplanationLevel = BEGINNER | STUDENT | RESEARCHER

datatype ChatMessage = ChatMessage (role: pystr) (msg_content: pystr)

text \<open>
  One call of \<open>client.chat.completions.create\<close>. The two sampling parameters are the
  decimal literals of the source.
\<close>

record llm_request =
  req_model :: pystr
  req_messages :: "ChatMessage list"
  req_temperature :: rat
  req_max_tokens :: int
  req_top_p :: rat

definition model :: pystr where
  "model = lit ''llama-3.3-70b-versatile''"

definition fallback_model :: pystr where
  "fallback_model = lit ''llama-3.1-8b-instant''"

definition base_prompt :: pystr where
  \<open>base_prompt =
     lit (''You are an expert AI research paper explainer assistant. Your role is to help users understand research papers by providing accurate, well-structured explanations based ONLY on the provided context from the paper.\<newline>'' @
          ''\<newline>'' @
          ''CRITICAL RULES:\<newline>'' @
          ''1. ONLY use information from the provided context chunks. Do NOT make up or hallucinate information.\<newline>'' @
          ''2. If the context doesn't contain enough information to answer a question, clearly state that the information is not available in the provided context.\<newline>'' @
          ''3. Always cite specific sections or pages when possible using references from the context.\<newline>'' @
          ''4. Be precise and accurate - maintain academic rigor.\<newline>'' @
          ''5. If you're unsure about something, say so rather than guessing.\<newline>'')\<close>

definition level_beginner :: pystr where
  \<open>level_beginner =
     lit (''\<newline>'' @
          ''EXPLANATION STYLE: BEGINNER LEVEL\<newline>'' @
          ''- Use simple, everyday language\<newline>'' @
          ''- Avoid jargon or explain it when necessary\<newline>'' @
          ''- Use analogies and examples\<newline>'' @
          ''- Break down complex concepts into smaller parts\<newline>'' @
          ''- Focus on "what" and "why" rather than technical details\<newline>'' @
          ''- Make it accessible to someone with no background in the field\<newline>'')\<close>

definition level_student :: pystr where
  \<open>level_student =
     lit (''\<newline>'' @
          ''EXPLANATION STYLE: STUDENT LEVEL\<newline>'' @
          ''- Use appropriate academic terminology but define key terms\<newline>'' @
          ''- Provide context and background when needed\<newline>'' @
          ''- Explain methodology and approach\<newline>'' @
          ''- Connect concepts to broader knowledge\<newline>'' @
          ''- Suitable for undergraduate or graduate students\<newline>'' @
          ''- Balance simplicity with technical accuracy\<newline>'')\<close>

definition level_researcher :: pystr where
  \<open>level_researcher =
     lit (''\<newline>'' @
          ''EXPLANATION STYLE: RESEARCHER LEVEL\<newline>'' @
          ''- Use precise technical and academic terminology\<newline>'' @
          ''- Assume familiarity with the field\<newline>'' @
          ''- Focus on methodology, implementation details, and technical nuances\<newline>'' @
          ''- Discuss implications, limitations, and connections to other work\<newline>'' @
          ''- Provide implementation insights and technical details\<newline>'' @
          ''- Suitable for researchers and practitioners in the field\<newline>'')\<close>

fun get_system_prompt :: "ExplanationLevel \<Rightarrow> pystr" where
  "get_system_prompt BEGINNER = base_prompt @ level_beginner"
| "get_system_prompt STUDENT = base_prompt @ level_student"
| "get_system_prompt RESEARCHER = base_prompt @ level_researcher"

definition dict_get :: "('k \<times> 'a) list \<Rightarrow> 'k \<Rightarrow> 'a \<Rightarrow> 'a" where
  "dict_get d k dflt = (case map_of d k of None \<Rightarrow> dflt | Some v \<Rightarrow> v)"

definition format_context :: "'o search_result list \<Rightarrow> pystr" where
  "format_context chunks =
     (if chunks = [] then lit ''No relevant context found.''
      else py_join [10]
             (concat (map (\<lambda>(i, chunk).
                             (let page_info = dict_get (metadata chunk) (lit ''page'') (PyStr [])
                              in [lit ''[Context '' @ py_str_int (int i + 1) @ lit '']''] @
                                 (if truthy page_info then [lit ''Source: '' @ py_format page_info]
                                  else []) @
                                 [content chunk, []]))
                          (zip [0 ..< length chunks] chunks))))"

definition user_message :: "pystr \<Rightarrow> pystr \<Rightarrow> pystr" where
  \<open>user_message context question =
     lit (''Based on the following context from a research paper, please answer the question.\<newline>'' @
          ''\<newline>'' @
          ''CONTEXT FROM PAPER:\<newline>'') @
     context @
     lit (''\<newline>'' @
          ''\<newline>'' @
          ''QUESTION: '') @
     question @
     lit (''\<newline>'' @
          ''\<newline>'' @
          ''Please provide a clear, accurate answer based only on the context provided above.'')\<close>

text \<open>The list \<open>messages\<close> that \<open>GroqService.generate_answer\<close> builds.\<close>

definition build_messages ::
  "pystr \<Rightarrow> 'o search_result list \<Rightarrow> ExplanationLevel \<Rightarrow> (pystr \<times> pystr) list list option
     \<Rightarrow> ChatMessage list" where
  "build_messages question context_chunks explanation_level chat_history =
     (let context = format_context context_chunks;
          system_prompt = get_system_prompt explanation_level
      in [ChatMessage (lit ''system'') system_prompt] @
         (case chat_history of
            None \<Rightarrow> []
          | Some h \<Rightarrow>
              if h = [] then []
              else map (\<lambda>msg. ChatMessage (dict_get msg (lit ''role'') (lit ''user''))
                                          (dict_get msg (lit ''content'') []))
                       (py_last_items 5 h)) @
         [ChatMessage (lit ''user'') (user_message context question)])"

text \<open>
  \<open>GroqService.generate_answer\<close>. The provider is outside the repository: \<open>llm\<close> gives,
  for a request, the text of the first choice or the exception raised. The second
  component is the list of the requests made, in order.
\<close>

definition generate_answer ::
  "(llm_request \<Rightarrow> py_exception + pystr) \<Rightarrow> pystr \<Rightarrow> 'o search_result list \<Rightarrow> ExplanationLevel
     \<Rightarrow> (pystr \<times> pystr) list list option \<Rightarrow> (py_exception + pystr) \<times> llm_request list" where
  "generate_answer llm question context_chunks explanation_level chat_history =
     (let messages = build_messages question context_chunks explanation_level chat_history;
          first_request = \<lparr>req_model = model, req_messages = messages,
                           req_temperature = 3 / 10, req_max_tokens = 2048, req_top_p = 9 / 10\<rparr>
      in case llm first_request of
           Inr answer \<Rightarrow> (Inr answer, [first_request])
         | Inl e \<Rightarrow>
             if model \<noteq> fallback_model
             then (let second_request =
                         \<lparr>req_model = fallback_model, req_messages = messages,
                          req_temperature = 3 / 10, req_max_tokens = 2048, req_top_p = 9 / 10\<rparr>
                   in case llm second_request of
                        Inr answer \<Rightarrow> (Inr answer, [first_request, second_request])
                      | Inl fallback_error \<Rightarrow>
                          (Inl (Exception (lit ''Failed to generate answer: '' @ exc_str e)),
                           [first_request, second_request]))
             else (Inl (Exception (lit ''Failed to generate answer: '' @ exc_str e)),
                   [first_request]))"

section \<open>The retrieval and generation service\<close>

record 'v rag_service =
  vector_store :: "'v vector_store"
  top_k :: int

record rag_answer =
  answer :: pystr
  sources :: "pystr list"

definition no_information :: pystr where
  \<open>no_information =
     lit (''I couldn't find relevant information in the document to answer your question. '' @
          ''Please try rephrasing or asking about a different aspect of the paper.'')\<close>

definition add_document ::
  "engine \<Rightarrow> (pystr \<Rightarrow> 'v) \<Rightarrow> 'v rag_service \<Rightarrow> pystr \<Rightarrow> pystr list \<Rightarrow> (py_exception + unit) \<times> 'v rag_service" where
  "add_document eng encode svc document_id chunks =
     (case add_documents eng encode (vector_store svc) document_id chunks None of
        (r, vs') \<Rightarrow> (r, svc\<lparr>vector_store := vs'\<rparr>))"

text \<open>
  \<open>RAGService.query\<close>: the result or the exception, the service afterwards, and the
  requests made to the provider.
\<close>

definition query ::
  "(llm_request \<Rightarrow> py_exception + pystr) \<Rightarrow> engine \<Rightarrow> (pystr \<Rightarrow> 'v) \<Rightarrow> ('v \<Rightarrow> 'v \<Rightarrow> 'o::linorder)
     \<Rightarrow> 'v rag_service \<Rightarrow> pystr \<Rightarrow> pystr \<Rightarrow> ExplanationLevel \<Rightarrow> ChatMessage list option
     \<Rightarrow> (py_exception + rag_answer) \<times> 'v rag_service \<times> llm_request list" where
  "query llm eng encode distance svc document_id question explanation_level chat_history =
     (case search eng encode distance (vector_store svc) document_id question (top_k svc) of
        (Inl e, vs') \<Rightarrow> (Inl e, svc\<lparr>vector_store := vs'\<rparr>, [])
      | (Inr relevant_chunks, vs') \<Rightarrow>
          if relevant_chunks = []
          then (Inr \<lparr>answer = no_information, sources = []\<rparr>, svc\<lparr>vector_store := vs'\<rparr>, [])
          else
            (let history_dict =
                   (case chat_history of
                      None \<Rightarrow> None
                    | Some h \<Rightarrow>
                        if h = [] then None
                        else Some (map (\<lambda>msg. [(lit ''role'', role msg),
                                                 (lit ''content'', msg_content msg)]) h))
             in case generate_answer llm question relevant_chunks explanation_level history_dict of
                  (Inl e, calls) \<Rightarrow> (Inl e, svc\<lparr>vector_store := vs'\<rparr>, calls)
                | (Inr answer_text, calls) \<Rightarrow>
                    (Inr \<lparr>answer = answer_text,
                          sources = map (\<lambda>chunk. take 200 (content chunk) @ lit ''...'')
                                        (take 3 relevant_chunks)\<rparr>,
                     svc\<lparr>vector_store := vs'\<rparr>, calls)))"

definition rag_delete_document :: "'v rag_service \<Rightarrow> pystr \<Rightarrow> bool \<times> 'v rag_service" where
  "rag_delete_document svc document_id =
     (case delete_document (vector_store svc) document_id of
        (ok, vs') \<Rightarrow> (ok, svc\<lparr>vector_store := vs'\<rparr>))"

section \<open>The endpoints\<close>

datatype http_error = HTTPException (status_code: nat) (detail: pystr)

text \<open>The two global services, \<open>None\<close> until \<open>initialize_services\<close> has run.\<close>

record 'v app =
  pdf_processor :: "unit option"
  rag_service :: "'v rag_service option"

definition MAX_FILE_SIZE :: nat where
  "MAX_FILE_SIZE = 50 * 1024 * 1024"

text \<open>
  \<open>file.filename.lower().endswith('.pdf')\<close>: only \<open>.\<close>, \<open>P\<close>, \<open>D\<close>, \<open>F\<close> and their lower-case
  forms lower-case to the four characters of the suffix.
\<close>

definition ascii_lower :: "pychar \<Rightarrow> pychar" where
  "ascii_lower c = (if 65 \<le> c \<and> c \<le> 90 then c + 32 else c)"

definition lower_endswith_pdf :: "pystr \<Rightarrow> bool" where
  "lower_endswith_pdf name = suffix (lit ''.pdf'') (map ascii_lower name)"

record upload_file =
  filename :: "pystr option"
  file_size :: nat

datatype upload_response =
  DocumentUploadResponse (up_document_id: pystr) (up_filename: pystr) (up_pages: int)
    (up_chunks: int) (up_message: pystr)

text \<open>
  \<open>upload_document\<close>. Besides the uploaded file it is given what the environment
  yields: the fresh identifier, the exception of writing the temporary file if there is
  one, and what opening and reading the PDF yields.
\<close>

definition upload_document ::
  "engine \<Rightarrow> (pystr \<Rightarrow> 'v) \<Rightarrow> 'v app \<Rightarrow> upload_file \<Rightarrow> pystr \<Rightarrow> py_exception option
     \<Rightarrow> py_exception + pystr list \<Rightarrow> (http_error + upload_response) \<times> 'v app" where
  "upload_document eng encode app file document_id temp_error pdf =
     (case (pdf_processor app, rag_service app) of
        (Some proc, Some svc) \<Rightarrow>
          (case filename file of
             None \<Rightarrow> (Inl (HTTPException 400 (lit ''Only PDF files are supported'')), app)
           | Some name \<Rightarrow>
          if name = [] \<or> \<not> lower_endswith_pdf name
          then (Inl (HTTPException 400 (lit ''Only PDF files are supported'')), app)
          else if file_size file > MAX_FILE_SIZE
          then (Inl (HTTPException 400
                       (lit ''File size exceeds maximum allowed size of 50.0MB'')), app)
          else
            (case temp_error of
               Some e \<Rightarrow>
                 (Inl (HTTPException 500 (lit ''Failed to process document: '' @ exc_str e)), app)
             | None \<Rightarrow>
            (case extract_text pdf of
               Inl e \<Rightarrow>
                 (Inl (HTTPException 500 (lit ''Failed to process document: '' @ exc_str e)), app)
             | Inr (text, page_count) \<Rightarrow>
                 if text = [] \<or> py_strip text = []
                 then (Inl (HTTPException 400
                              (lit (''Could not extract text from PDF. '' @
                                    ''Please ensure the PDF contains readable text.''))), app)
                 else
                   (let chunks = chunk_text text 1000 200 in
                    if chunks = []
                    then (Inl (HTTPException 500 (lit ''Failed to chunk document text'')), app)
                    else
                      (case add_document eng encode svc document_id chunks of
                         (Inl e, svc') \<Rightarrow>
                           (Inl (HTTPException 500
                                   (lit ''Failed to process document: '' @ exc_str e)),
                            app\<lparr>rag_service := Some svc'\<rparr>)
                       | (Inr u, svc') \<Rightarrow>
                           (Inr (DocumentUploadResponse document_id name page_count
                                   (int (length chunks)) (lit ''Document processed successfully'')),
                            app\<lparr>rag_service := Some svc'\<rparr>))))))
      | _ \<Rightarrow> (Inl (HTTPException 500 (lit ''Service not initialized'')), app))"

record chat_request =
  document_id :: pystr
  question :: pystr
  explanation_level :: ExplanationLevel
  chat_history :: "ChatMessage list option"

datatype chat_response =
  ChatResponse (resp_answer: pystr) (resp_sources: "pystr list") (resp_document_id: pystr)

definition chat ::
  "(llm_request \<Rightarrow> py_exception + pystr) \<Rightarrow> engine \<Rightarrow> (pystr \<Rightarrow> 'v) \<Rightarrow> ('v \<Rightarrow> 'v \<Rightarrow> 'o::linorder)
     \<Rightarrow> 'v app \<Rightarrow> chat_request \<Rightarrow> (http_error + chat_response) \<times> 'v app \<times> llm_request list" where
  "chat llm eng encode distance app request =
     (case rag_service app of
        None \<Rightarrow> (Inl (HTTPException 500 (lit ''Service not initialized'')), app, [])
      | Some svc \<Rightarrow>
          if question request = [] \<or> py_strip (question request) = []
          then (Inl (HTTPException 400 (lit ''Question cannot be empty'')), app, [])
          else if document_id request = []
          then (Inl (HTTPException 400 (lit ''Document ID is required'')), app, [])
          else
            (case query llm eng encode distance svc (document_id request) (question request)
                    (explanation_level request) (chat_history request) of
               (Inl e, svc', calls) \<Rightarrow>
                 (Inl (HTTPException 500 (lit ''Failed to process query: '' @ exc_str e)),
                  app\<lparr>rag_service := Some svc'\<rparr>, calls)
             | (Inr result, svc', calls) \<Rightarrow>
                 (Inr (ChatResponse (answer result) (sources result) (document_id request)),
                  app\<lparr>rag_service := Some svc'\<rparr>, calls)))"

text \<open>The \<open>DELETE\<close> endpoint: the status of the response, 204 when the document was deleted.\<close>

definition delete_document_endpoint :: "'v app \<Rightarrow> pystr \<Rightarrow> (http_error + nat) \<times> 'v app" where
  "delete_document_endpoint app doc_id =
     (case rag_service app of
        None \<Rightarrow> (Inl (HTTPException 500 (lit ''Service not initialized'')), app)
      | Some svc \<Rightarrow>
          (case rag_delete_document svc doc_id of
             (success, svc') \<Rightarrow>
               if \<not> success
               then (Inl (HTTPException 404 (lit ''Document '' @ doc_id @ lit '' not found'')),
                     app\<lparr>rag_service := Some svc'\<rparr>)
               else (Inr 204, app\<lparr>rag_service := Some svc'\<rparr>)))"

section \<open>Predicates of the statements and of the invariants\<close>

text \<open>A string with nothing but whitespace in it; the empty string is one.\<close>

definition blank :: "pystr \<Rightarrow> bool" where
  "blank s \<longleftrightarrow> (\<forall>c \<in> set s. is_space c)"

text \<open>
  The request of the specification: a model, a message sequence, temperature 0.3, at most
  2048 output tokens and top-p 0.9.
\<close>

definition request_for :: "pystr \<Rightarrow> ChatMessage list \<Rightarrow> llm_request" where
  "request_for m msgs =
     \<lparr>req_model = m, req_messages = msgs, req_temperature = 3 / 10, req_max_tokens = 2048,
      req_top_p = 9 / 10\<rparr>"

text \<open>
  The consistency of a vector store: a collection object kept in \<open>self.collections\<close> is
  kept under the name of its collection, and the database has that collection.
\<close>

definition store_inv :: "'v vector_store \<Rightarrow> bool" where
  "store_inv vs \<longleftrightarrow> (\<forall>d h. collections vs d = Some h \<longrightarrow> h = d \<and> client vs d \<noteq> None)"

text \<open>A string that is not empty and does not end in whitespace, as the buffers of the loops are.\<close>

definition solid :: "pystr \<Rightarrow> bool" where
  "solid s \<longleftrightarrow> s \<noteq> [] \<and> \<not> is_space (last s)"

text \<open>
  A chunk followed on by the next: the next begins with the last \<open>k\<close> characters of the
  chunk without their leading whitespace, and the paragraph separator after them.
\<close>

definition follows_on :: "int \<Rightarrow> pystr \<Rightarrow> pystr \<Rightarrow> bool" where
  "follows_on k c c' \<longleftrightarrow> prefix (dropWhile is_space (py_last_chars k c) @ para_sep) c'"

text \<open>Every chunk of a list but the last is followed on by the next.\<close>

definition chained :: "int \<Rightarrow> pystr list \<Rightarrow> bool" where
  "chained k cs \<longleftrightarrow> (\<forall>i. Suc i < length cs \<longrightarrow> follows_on k (cs ! i) (cs ! Suc i))"

text \<open>
  What the paragraph loop keeps true of the chunks flushed so far and its buffer: the
  buffer is empty or does not end in whitespace, the chunks are chained, and the buffer
  follows on the last chunk.
\<close>

definition para_inv :: "int \<Rightarrow> pystr list \<times> pystr \<Rightarrow> bool" where
  "para_inv k st \<longleftrightarrow>
     (snd st = [] \<or> solid (snd st)) \<and> chained k (fst st) \<and>
     (fst st \<noteq> [] \<longrightarrow> solid (snd st) \<and> follows_on k (last (fst st)) (dropWhile is_space (snd st)))"

section \<open>Example data\<close>

text \<open>
  A small instance for concrete runs: the embedding of a text is its length, the distance
  of two embeddings their difference, and the provider answers every request.
\<close>

definition ex_encode :: "pystr \<Rightarrow> nat" where
  "ex_encode s = length s"

definition ex_distance :: "nat \<Rightarrow> nat \<Rightarrow> nat" where
  "ex_distance a b = (a - b) + (b - a)"

definition ex_llm :: "llm_request \<Rightarrow> py_exception + pystr" where
  "ex_llm r = Inr (lit ''ok'')"

text \<open>
  An engine that refuses collection names of fewer than three characters and requests
  for fewer than one result.
\<close>

definition ex_engine :: engine where
  "ex_engine =
     \<lparr>name_error =
        (\<lambda>name. if length name < 3
                then Some (EngineError (lit ''Expected collection name of 3 or more characters''))
                else None),
      n_results_error =
        (\<lambda>n. if n \<le> 0
             then Some (EngineError (lit ''Number of requested results '' @ py_str_int n @
                                     lit '', cannot be negative, or zero.''))
             else None)\<rparr>"

definition ex_empty_store :: "nat vector_store" where
  "ex_empty_store = \<lparr>client = Map.empty, collections = Map.empty\<rparr>"

definition ex_store :: "nat vector_store" where
  "ex_store =
     \<lparr>client = [lit ''doc'' \<mapsto>
                  [\<lparr>entry_id = lit ''doc_chunk_0'', entry_embedding = 5, entry_document = lit ''Hello'',
                    entry_metadata = [(lit ''chunk_index'', PyInt 0),
                                      (lit ''document_id'', PyStr (lit ''doc''))]\<rparr>]],
      collections = Map.empty\<rparr>"

definition ex_history :: "ChatMessage list" where
  "ex_history =
     [ChatMessage (lit ''user'') (lit ''one''), ChatMessage (lit ''assistant'') (lit ''two''),
      ChatMessage (lit ''user'') (lit ''three''), ChatMessage (lit ''assistant'') (lit ''four''),
      ChatMessage (lit ''user'') (lit ''five''), ChatMessage (lit ''assistant'') (lit ''six'')]"

text \<open>
  A paragraph of 900 characters with a space as its 701st, and a paragraph of 200.
\<close>

definition ex_two_paragraphs :: pystr where
  "ex_two_paragraphs =
     (replicate 700 97 @ 32 # 98 # replicate 198 98) @ 10 # 10 # replicate 200 99"

section \<open>Facts about strings\<close>

lemma py_strip_blank: "blank s \<Longrightarrow> py_strip s = []"
  unfolding blank_def py_strip_def
  by (auto simp: dropWhile_eq_Nil_conv dest: set_dropWhileD)

lemma py_strip_eq_Nil: "py_strip s = [] \<longleftrightarrow> blank s"
proof
  assume "py_strip s = []"
  then have all: "\<forall>x \<in> set (dropWhile is_space s). is_space x"
    by (simp add: py_strip_def)
  have "dropWhile is_space s = []"
  proof (rule ccontr)
    assume ne: "dropWhile is_space s \<noteq> []"
    then have "\<not> is_space (hd (dropWhile is_space s))" by (rule hd_dropWhile)
    moreover from ne have "hd (dropWhile is_space s) \<in> set (dropWhile is_space s)" by simp
    ultimately show False using all by blast
  qed
  then show "blank s" by (simp add: blank_def)
next
  assume "blank s" then show "py_strip s = []" by (rule py_strip_blank)
qed

lemma py_strip_clean:
  assumes "s \<noteq> []" "\<not> is_space (hd s)" "\<not> is_space (last s)"
  shows "py_strip s = s"
proof -
  from assms have "dropWhile is_space s = s" by (cases s) auto
  moreover from assms have "dropWhile is_space (rev s) = rev s"
    by (cases "rev s") (auto simp: last_rev hd_rev)
  ultimately show ?thesis by (simp add: py_strip_def)
qed

lemma py_strip_rclean:
  assumes "s \<noteq> []" "\<not> is_space (last s)"
  shows "py_strip s = dropWhile is_space s"
proof -
  from assms have ne: "dropWhile is_space s \<noteq> []"
    by (metis dropWhile_eq_Nil_conv last_in_set)
  have "last (dropWhile is_space s) = last s"
    using ne by (metis append_Nil2 last_appendR takeWhile_dropWhile_id)
  with assms ne
  have "dropWhile is_space (rev (dropWhile is_space s)) = rev (dropWhile is_space s)"
    by (cases "rev (dropWhile is_space s)") (auto simp: hd_rev)
  then show ?thesis by (simp add: py_strip_def)
qed

lemma py_strip_hd:
  assumes "py_strip s \<noteq> []"
  shows "\<not> is_space (hd (py_strip s))"
proof -
  let ?d = "dropWhile is_space s"
  have d: "?d \<noteq> []"
  proof
    assume "?d = []"
    then have "py_strip s = []" by (simp add: py_strip_def del: dropWhile_eq_Nil_conv)
    with assms show False by simp
  qed
  then have h: "\<not> is_space (hd ?d)" by (rule hd_dropWhile)
  have "?d = rev (dropWhile is_space (rev ?d)) @ rev (takeWhile is_space (rev ?d))"
    by (metis rev_append rev_rev_ident takeWhile_dropWhile_id)
  then have "?d = py_strip s @ rev (takeWhile is_space (rev ?d))" by (simp add: py_strip_def)
  then have "hd ?d = hd (py_strip s)" using assms by (metis hd_append2)
  with h show ?thesis by simp
qed

lemma py_strip_last:
  assumes "py_strip s \<noteq> []"
  shows "\<not> is_space (last (py_strip s))"
proof -
  from assms have "dropWhile is_space (rev (dropWhile is_space s)) \<noteq> []"
    by (simp add: py_strip_def)
  then have "\<not> is_space (hd (dropWhile is_space (rev (dropWhile is_space s))))"
    by (rule hd_dropWhile)
  then show ?thesis using assms by (simp add: py_strip_def last_rev)
qed

lemma length_py_strip: "length (py_strip s) \<le> length s"
proof -
  have "length (py_strip s) \<le> length (dropWhile is_space s)"
    using length_dropWhile_le [of is_space "rev (dropWhile is_space s)"]
    by (simp add: py_strip_def)
  also have "\<dots> \<le> length s" by (rule length_dropWhile_le)
  finally show ?thesis .
qed

section \<open>The generator and the sources of an answer\<close>

lemma model_neq_fallback: "model \<noteq> fallback_model"
  by (simp add: model_def fallback_model_def lit_def)

lemma generate_answer_primary_fails:
  assumes "llm (request_for model (build_messages q cs lv h)) = Inl e"
  shows "generate_answer llm q cs lv h =
           ((case llm (request_for fallback_model (build_messages q cs lv h)) of
               Inr a \<Rightarrow> Inr a
             | Inl fe \<Rightarrow> Inl (Exception (lit ''Failed to generate answer: '' @ exc_str e))),
            [request_for model (build_messages q cs lv h),
             request_for fallback_model (build_messages q cs lv h)])"
  using assms model_neq_fallback
  by (simp add: generate_answer_def request_for_def Let_def split: sum.splits)

lemma generate_answer_calls:
  "snd (generate_answer llm q cs lv h) = [request_for model (build_messages q cs lv h)] \<or>
   snd (generate_answer llm q cs lv h) =
     [request_for model (build_messages q cs lv h),
      request_for fallback_model (build_messages q cs lv h)]"
  by (simp add: generate_answer_def request_for_def Let_def split: sum.splits)

lemma history_round_trip:
  "map (\<lambda>msg. ChatMessage (dict_get msg (lit ''role'') (lit ''user''))
                          (dict_get msg (lit ''content'') []))
       (map (\<lambda>msg. [(lit ''role'', role msg), (lit ''content'', msg_content msg)]) h) = h"
proof -
  have ne: "lit ''content'' \<noteq> lit ''role''" by (simp add: lit_def)
  show ?thesis
    by (induction h) (simp_all add: dict_get_def ne)
qed


lemma build_messages_history:
  "build_messages q cs lv
     (if h = [] then None
      else Some (map (\<lambda>msg. [(lit ''role'', role msg), (lit ''content'', msg_content msg)]) h)) =
   ChatMessage (lit ''system'') (get_system_prompt lv) # drop (length h - 5) h @
   [ChatMessage (lit ''user'') (user_message (format_context cs) q)]"
proof (cases "h = []")
  case True
  then show ?thesis by (simp add: build_messages_def)
next
  case False
  let ?f = "\<lambda>msg. [(lit ''role'', role msg), (lit ''content'', msg_content msg)]"
  let ?g = "\<lambda>msg. ChatMessage (dict_get msg (lit ''role'') (lit ''user''))
                             (dict_get msg (lit ''content'') [])"
  have "map ?g (py_last_items 5 (map ?f h)) = drop (length h - 5) (map ?g (map ?f h))"
    by (simp add: py_last_items_def drop_map)
  also have "\<dots> = drop (length h - 5) h"
    by (simp only: history_round_trip)
  finally show ?thesis using False by (simp add: build_messages_def)
qed

lemma query_nonempty:
  assumes "search eng encode distance (vector_store svc) d q (top_k svc) = (Inr rs, vs')"
    and "rs \<noteq> []"
  shows "query llm eng encode distance svc d q lv hist =
           (let hd = (case hist of None \<Rightarrow> None
                      | Some h \<Rightarrow> if h = [] then None
                          else Some (map (\<lambda>msg. [(lit ''role'', role msg),
                                                   (lit ''content'', msg_content msg)]) h))
            in case generate_answer llm q rs lv hd of
                 (Inl e, calls) \<Rightarrow> (Inl e, svc\<lparr>vector_store := vs'\<rparr>, calls)
               | (Inr a, calls) \<Rightarrow>
                   (Inr \<lparr>answer = a,
                         sources = map (\<lambda>chunk. take 200 (content chunk) @ lit ''...'') (take 3 rs)\<rparr>,
                    svc\<lparr>vector_store := vs'\<rparr>, calls))"
  using assms by (simp add: query_def)

text \<open>
  C5: when the call to the primary model fails, the requests made are the primary one and
  one to the fallback model, with the same messages, temperature 0.3, at most 2048 output
  tokens and top-p 0.9; the result is the fallback's answer, or a generation failure when
  the fallback fails too. There is no third request.
\<close>
theorem generate_answer_one_fallback:
  assumes "llm (request_for model (build_messages q cs lv h)) = Inl e"
  shows "snd (generate_answer llm q cs lv h) =
           [request_for model (build_messages q cs lv h),
            request_for fallback_model (build_messages q cs lv h)] \<and>
         fst (generate_answer llm q cs lv h) =
           (case llm (request_for fallback_model (build_messages q cs lv h)) of
              Inr a \<Rightarrow> Inr a
            | Inl fe \<Rightarrow> Inl (Exception (lit ''Failed to generate answer: '' @ exc_str e)))"
  using generate_answer_primary_fails [of llm q cs lv h e] assms by simp

theorem generate_answer_one_fallback_witness:
  "snd (generate_answer (\<lambda>r. Inl (Exception (lit ''down''))) (lit ''q'')
          ([] :: nat search_result list) STUDENT None) =
     [request_for model (build_messages (lit ''q'') ([] :: nat search_result list) STUDENT None),
      request_for fallback_model
        (build_messages (lit ''q'') ([] :: nat search_result list) STUDENT None)] \<and>
   fst (generate_answer (\<lambda>r. Inl (Exception (lit ''down''))) (lit ''q'')
          ([] :: nat search_result list) STUDENT None) =
     Inl (Exception (lit ''Failed to generate answer: '' @ lit ''down''))"
  using generate_answer_one_fallback
    [of "\<lambda>r. Inl (Exception (lit ''down''))" "lit ''q''" "[] :: nat search_result list"
        STUDENT None "Exception (lit ''down'')"]
  by simp

text \<open>
  C6: a query that retrieves something and has a history \<open>h\<close> calls the generator, and
  every request it makes carries the system prompt, then the last five turns of \<open>h\<close>
  (all of them when there are fewer) unchanged and in order, then the user turn.
\<close>
theorem query_history_last_five:
  assumes "search eng encode distance (vector_store svc) d q (top_k svc) = (Inr rs, vs')"
    and "rs \<noteq> []"
  shows "snd (snd (query llm eng encode distance svc d q lv (Some h))) \<noteq> [] \<and>
         (\<forall>r \<in> set (snd (snd (query llm eng encode distance svc d q lv (Some h)))).
            req_messages r =
              ChatMessage (lit ''system'') (get_system_prompt lv) # drop (length h - 5) h @
              [ChatMessage (lit ''user'') (user_message (format_context rs) q)])"
proof -
  let ?hd = "if h = [] then None
             else Some (map (\<lambda>msg. [(lit ''role'', role msg), (lit ''content'', msg_content msg)]) h)"
  let ?g = "generate_answer llm q rs lv ?hd"
  have calls: "snd (snd (query llm eng encode distance svc d q lv (Some h))) = snd ?g"
    by (simp add: query_nonempty [OF assms] split: prod.splits sum.splits)
  have "snd ?g = [request_for model (build_messages q rs lv ?hd)] \<or>
        snd ?g = [request_for model (build_messages q rs lv ?hd),
                  request_for fallback_model (build_messages q rs lv ?hd)]"
    by (rule generate_answer_calls)
  then have "snd ?g \<noteq> [] \<and> (\<forall>r \<in> set (snd ?g). req_messages r = build_messages q rs lv ?hd)"
    by (auto simp: request_for_def)
  then show ?thesis
    unfolding calls build_messages_history .
qed

text \<open>
  C4: a query that retrieves a non-empty list and gets an answer returns as sources the
  first 200 characters, followed by three dots, of each of the first three retrieved
  chunks: at most 3 entries, each of at most 203 characters.
\<close>
theorem query_sources_snippets:
  assumes "search eng encode distance (vector_store svc) d q (top_k svc) = (Inr rs, vs')"
    and "rs \<noteq> []"
    and "fst (query llm eng encode distance svc d q lv hist) = Inr res"
  shows "sources res = map (\<lambda>chunk. take 200 (content chunk) @ lit ''...'') (take 3 rs) \<and>
         length (sources res) \<le> 3 \<and> (\<forall>s \<in> set (sources res). length s \<le> 203)"
proof -
  have src: "sources res = map (\<lambda>chunk. take 200 (content chunk) @ lit ''...'') (take 3 rs)"
    using assms(3) unfolding query_nonempty [OF assms(1,2)]
    by (auto simp: Let_def split: prod.splits sum.splits)
  have "length (lit ''...'') = 3" by (simp add: lit_def)
  then have "\<forall>s \<in> set (sources res). length s \<le> 203"
    unfolding src by auto
  with src show ?thesis by simp
qed

section \<open>The vector store\<close>

lemma store_inv_initial: "store_inv \<lparr>client = cl, collections = Map.empty\<rparr>"
  by (simp add: store_inv_def)

lemma store_invD:
  "store_inv vs \<Longrightarrow> collections vs d = Some h \<Longrightarrow> h = d \<and> client vs d \<noteq> None"
  unfolding store_inv_def by blast

lemma store_inv_cached: "store_inv vs \<Longrightarrow> client vs d = None \<Longrightarrow> collections vs d = None"
  by (cases "collections vs d") (auto dest: store_invD)

lemma create_collection_made:
  assumes "store_inv vs" and "client vs d \<noteq> None \<or> name_error eng d = None"
  shows "\<exists>vs'. create_collection eng vs d = (Inr d, vs') \<and>
               client vs' = (case client vs d of None \<Rightarrow> (client vs)(d \<mapsto> []) | Some es \<Rightarrow> client vs) \<and>
               collections vs' = (collections vs)(d \<mapsto> d) \<and> store_inv vs'"
proof (cases "collections vs d")
  case None
  show ?thesis
  proof (cases "client vs d")
    case a: None
    with assms(2) have "name_error eng d = None" by simp
    with a None assms(1) show ?thesis
      by (auto simp: create_collection_def client_get_collection_def
            client_create_collection_def store_inv_def)
  next
    case (Some es)
    with None assms(1) show ?thesis
      by (auto simp: create_collection_def client_get_collection_def store_inv_def)
  qed
next
  case (Some h)
  with assms(1) have h: "h = d" and "client vs d \<noteq> None" by (auto simp: store_inv_def)
  then obtain es where es: "client vs d = Some es" by auto
  have "(collections vs)(d \<mapsto> d) = collections vs" using Some h by auto
  with Some h es assms(1) show ?thesis
    by (simp add: create_collection_def)
qed

lemma create_collection_refused:
  assumes "store_inv vs" and "client vs d = None" and "name_error eng d = Some e"
  shows "create_collection eng vs d = (Inl e, vs)"
proof -
  from assms(1,2) have "collections vs d = None" by (rule store_inv_cached)
  with assms(2,3) show ?thesis
    by (simp add: create_collection_def client_get_collection_def client_create_collection_def)
qed

lemma create_collection_cases:
  assumes "store_inv vs"
  shows "(\<exists>e. create_collection eng vs d = (Inl e, vs) \<and> client vs d = None) \<or>
         (\<exists>vs'. create_collection eng vs d = (Inr d, vs') \<and>
                client vs' = (case client vs d of None \<Rightarrow> (client vs)(d \<mapsto> [])
                              | Some es \<Rightarrow> client vs) \<and>
                collections vs' = (collections vs)(d \<mapsto> d) \<and> store_inv vs')"
proof (cases "client vs d \<noteq> None \<or> name_error eng d = None")
  case True
  with create_collection_made [OF assms] show ?thesis by blast
next
  case False
  then obtain e where "client vs d = None" and "name_error eng d = Some e" by auto
  with create_collection_refused [OF assms] show ?thesis by blast
qed

lemma create_collection_inv:
  assumes "store_inv vs"
  shows "store_inv (snd (create_collection eng vs d))"
  using create_collection_cases [OF assms, of eng d] assms by auto

text \<open>
  A search of a document without chunks whose collection exists or can be created: the
  collection is there afterwards, empty, and the result is what the engine makes of a
  request for \<open>min top_k 0\<close> results.
\<close>

lemma search_empty:
  assumes "store_inv vs" and "client vs d = None \<or> client vs d = Some []"
    and "client vs d \<noteq> None \<or> name_error eng d = None"
  shows "\<exists>vs'. search eng encode distance vs d q k =
                 ((case n_results_error eng (min k 0) of Some e \<Rightarrow> Inl e | None \<Rightarrow> Inr []), vs') \<and>
               client vs' = (client vs)(d \<mapsto> []) \<and>
               collections vs' = (collections vs)(d \<mapsto> d) \<and> store_inv vs'"
proof -
  from create_collection_made [OF assms(1,3)] obtain vs' where
    cc: "create_collection eng vs d = (Inr d, vs')" and
    cl: "client vs' = (case client vs d of None \<Rightarrow> (client vs)(d \<mapsto> []) | Some es \<Rightarrow> client vs)" and
    co: "collections vs' = (collections vs)(d \<mapsto> d)" and inv: "store_inv vs'"
    by blast
  from assms(2) cl have cl': "client vs' = (client vs)(d \<mapsto> [])"
    by (auto simp: fun_eq_iff)
  then have "client vs' d = Some []" by simp
  then have "search eng encode distance vs d q k =
      ((case n_results_error eng (min k 0) of Some e \<Rightarrow> Inl e | None \<Rightarrow> Inr []), vs')"
    by (simp add: search_def cc collection_count_def collection_query_def format_results_def
          split: option.splits)
  with cl' co inv show ?thesis by simp
qed

text \<open>When the engine refuses the name, the search returns nothing and creates nothing.\<close>

lemma search_refused:
  assumes "store_inv vs" and "client vs d = None" and "name_error eng d = Some e"
  shows "search eng encode distance vs d q k = (Inr [], vs)"
  by (simp add: search_def create_collection_refused [OF assms])

text \<open>Whatever the engine does, a search of a document without chunks returns no chunk.\<close>

lemma search_no_chunks:
  assumes "store_inv vs" and "client vs d = None \<or> client vs d = Some []"
    and "fst (search eng encode distance vs d q k) = Inr rs"
  shows "rs = []"
proof (cases "client vs d \<noteq> None \<or> name_error eng d = None")
  case True
  from search_empty [OF assms(1,2) True, of encode distance q k] assms(3)
  show ?thesis by (auto split: option.splits)
next
  case False
  then obtain e where "client vs d = None" and "name_error eng d = Some e" by auto
  from search_refused [OF assms(1) this, of encode distance q k] assms(3)
  show ?thesis by simp
qed

lemma delete_document_absent:
  assumes "store_inv vs" and "client vs d = None"
  shows "delete_document vs d = (False, vs)"
proof -
  from assms have "collections vs d = None"
    by (rule store_inv_cached)
  then have "d \<notin> dom (collections vs)" by auto
  with assms(2) show ?thesis
    by (simp add: delete_document_def client_delete_collection_def)
qed

lemma delete_document_present:
  assumes "store_inv vs" and "client vs d = Some es"
  shows "\<exists>vs'. delete_document vs d = (True, vs') \<and> client vs' = (client vs)(d := None) \<and>
               collections vs' = (collections vs)(d := None) \<and> store_inv vs'"
proof -
  let ?vs1 = "if d \<in> dom (collections vs)
              then vs\<lparr>collections := (collections vs)(d := None)\<rparr> else vs"
  have c1: "client ?vs1 = client vs" by simp
  have c2: "collections ?vs1 = (collections vs)(d := None)" by (auto simp: fun_eq_iff)
  let ?vs' = "?vs1\<lparr>client := (client vs)(d := None)\<rparr>"
  have "delete_document vs d = (True, ?vs')"
    using assms(2) by (simp add: delete_document_def client_delete_collection_def)
  moreover have "client ?vs' = (client vs)(d := None)" by simp
  moreover have "collections ?vs' = (collections vs)(d := None)" using c2 by simp
  moreover have "store_inv ?vs'"
    using assms(1) c2 by (auto simp: store_inv_def)
  ultimately show ?thesis by blast
qed

lemma store_inv_put:
  "store_inv vs \<Longrightarrow> store_inv (vs\<lparr>client := (client vs)(d \<mapsto> es)\<rparr>)"
  unfolding store_inv_def by (simp, blast)

lemma add_documents_inv:
  assumes "store_inv vs"
  shows "store_inv (snd (add_documents eng encode vs d cks ms))"
proof (cases "cks = []")
  case True
  with assms show ?thesis by (simp add: add_documents_def)
next
  case False
  obtain r vs' where cc: "create_collection eng vs d = (r, vs')"
    by (cases "create_collection eng vs d")
  with create_collection_inv [OF assms, of eng d] have inv: "store_inv vs'" by simp
  show ?thesis
    using False inv store_inv_put [OF inv]
    by (simp add: add_documents_def cc Let_def collection_add_def
          split: sum.splits option.splits)
qed

lemma search_inv:
  assumes "store_inv vs"
  shows "store_inv (snd (search eng encode distance vs d q k))"
proof -
  obtain r vs' where cc: "create_collection eng vs d = (r, vs')"
    by (cases "create_collection eng vs d")
  with create_collection_inv [OF assms, of eng d] have "store_inv vs'" by simp
  then show ?thesis
    by (simp add: search_def cc Let_def split: sum.splits)
qed

section \<open>Concrete runs\<close>

lemma ex_store_inv: "store_inv ex_store"
  by (simp add: ex_store_def store_inv_def)

lemma ex_search:
  "search ex_engine ex_encode ex_distance ex_store (lit ''doc'') (lit ''q'') 5 =
     (Inr [\<lparr>content = lit ''Hello'', score = Some 4,
            metadata = [(lit ''chunk_index'', PyInt 0), (lit ''document_id'', PyStr (lit ''doc''))]\<rparr>],
      ex_store\<lparr>collections := [lit ''doc'' \<mapsto> lit ''doc'']\<rparr>)"
  by (simp add: search_def ex_store_def create_collection_def client_get_collection_def
        collection_count_def collection_query_def format_results_def format_result_def
        py_index_def ex_encode_def ex_distance_def ex_engine_def lit_def)

theorem query_history_last_five_witness:
  "map req_messages
     (snd (snd (query ex_llm ex_engine ex_encode ex_distance \<lparr>vector_store = ex_store, top_k = 5\<rparr>
                  (lit ''doc'') (lit ''q'') RESEARCHER (Some ex_history)))) =
   [ChatMessage (lit ''system'') (get_system_prompt RESEARCHER) # tl ex_history @
    [ChatMessage (lit ''user'')
       (user_message
          (format_context
             [\<lparr>content = lit ''Hello'', score = Some (4::nat),
               metadata = [(lit ''chunk_index'', PyInt 0),
                           (lit ''document_id'', PyStr (lit ''doc''))]\<rparr>])
          (lit ''q''))]]"
proof -
  let ?calls = "snd (snd (query ex_llm ex_engine ex_encode ex_distance
                            \<lparr>vector_store = ex_store, top_k = 5\<rparr>
                            (lit ''doc'') (lit ''q'') RESEARCHER (Some ex_history)))"
  have six: "drop (length ex_history - 5) ex_history = tl ex_history"
    by (simp add: ex_history_def)
  have "\<exists>r. ?calls = [r]"
    unfolding query_def rag_service.simps ex_search
    by (simp add: generate_answer_def ex_llm_def Let_def)
  then obtain r where calls: "?calls = [r]" by blast
  show ?thesis
    using query_history_last_five
      [of ex_engine ex_encode ex_distance "\<lparr>vector_store = ex_store, top_k = 5\<rparr>"
          "lit ''doc''" "lit ''q''" _ _ ex_llm RESEARCHER ex_history]
      ex_search
    unfolding calls by (simp add: six)
qed

theorem query_sources_snippets_witness:
  "fst (query ex_llm ex_engine ex_encode ex_distance \<lparr>vector_store = ex_store, top_k = 5\<rparr>
          (lit ''doc'') (lit ''q'') BEGINNER None) =
     Inr \<lparr>answer = lit ''ok'', sources = [lit ''Hello...'']\<rparr> \<and>
   length [lit ''Hello...''] \<le> 3 \<and> length (lit ''Hello...'') \<le> 203"
proof -
  have run: "fst (query ex_llm ex_engine ex_encode ex_distance \<lparr>vector_store = ex_store, top_k = 5\<rparr>
                    (lit ''doc'') (lit ''q'') BEGINNER None) =
             Inr \<lparr>answer = lit ''ok'', sources = [lit ''Hello...'']\<rparr>"
    unfolding query_def rag_service.simps ex_search
    by (simp add: generate_answer_def ex_llm_def Let_def lit_def)
  have s: "search ex_engine ex_encode ex_distance (vector_store \<lparr>vector_store = ex_store, top_k = 5\<rparr>)
              (lit ''doc'') (lit ''q'') (top_k \<lparr>vector_store = ex_store, top_k = 5\<rparr>) =
           (Inr [\<lparr>content = lit ''Hello'', score = Some 4,
                  metadata = [(lit ''chunk_index'', PyInt 0),
                              (lit ''document_id'', PyStr (lit ''doc''))]\<rparr>],
            ex_store\<lparr>collections := [lit ''doc'' \<mapsto> lit ''doc'']\<rparr>)"
    using ex_search by simp
  have "sources \<lparr>answer = lit ''ok'', sources = [lit ''Hello...'']\<rparr> =
          map (\<lambda>chunk. take 200 (content chunk) @ lit ''...'')
            (take 3 [\<lparr>content = lit ''Hello'', score = Some (4::nat),
                      metadata = [(lit ''chunk_index'', PyInt 0),
                                  (lit ''document_id'', PyStr (lit ''doc''))]\<rparr>]) \<and>
        length (sources \<lparr>answer = lit ''ok'', sources = [lit ''Hello...'']\<rparr>) \<le> 3 \<and>
        (\<forall>s \<in> set (sources \<lparr>answer = lit ''ok'', sources = [lit ''Hello...'']\<rparr>).
           length s \<le> 203)"
    by (rule query_sources_snippets [OF s _ run]) simp
  with run show ?thesis by (simp add: lit_def)
qed

section \<open>Queries and deletions on the store\<close>

text \<open>
  A query of a document without chunks never reaches the generator, whatever the engine
  does.
\<close>

lemma query_without_chunks_no_request:
  assumes "store_inv (vector_store svc)"
    and "client (vector_store svc) d = None \<or> client (vector_store svc) d = Some []"
  shows "snd (snd (query llm eng encode distance svc d q lv hist)) = []"
proof -
  obtain r vs' where s: "search eng encode distance (vector_store svc) d q (top_k svc) = (r, vs')"
    by (cases "search eng encode distance (vector_store svc) d q (top_k svc)")
  show ?thesis
  proof (cases r)
    case (Inl e)
    with s show ?thesis by (simp add: query_def)
  next
    case (Inr rs)
    with s have "fst (search eng encode distance (vector_store svc) d q (top_k svc)) = Inr rs"
      by simp
    then have "rs = []" by (rule search_no_chunks [OF assms])
    with s Inr show ?thesis by (simp add: query_def)
  qed
qed

text \<open>
  Its result, when the collection exists or can be created, is decided by the engine: the
  exception the engine raises for a request of \<open>min top_k 0\<close> results, or the fixed answer
  when the engine raises none.
\<close>

lemma query_without_chunks_result:
  assumes "store_inv (vector_store svc)"
    and "client (vector_store svc) d = None \<or> client (vector_store svc) d = Some []"
    and "client (vector_store svc) d \<noteq> None \<or> name_error eng d = None"
  shows "fst (query llm eng encode distance svc d q lv hist) =
           (case n_results_error eng (min (top_k svc) 0) of
              Some e \<Rightarrow> Inl e
            | None \<Rightarrow> Inr \<lparr>answer = no_information, sources = []\<rparr>)"
proof -
  from search_empty [OF assms, of encode distance q "top_k svc"] obtain vs' where
    "search eng encode distance (vector_store svc) d q (top_k svc) =
       ((case n_results_error eng (min (top_k svc) 0) of Some e \<Rightarrow> Inl e | None \<Rightarrow> Inr []), vs')"
    by blast
  then show ?thesis by (simp add: query_def split: option.splits)
qed

text \<open>
  C3: on an engine that refuses a request for no results, a chat request about a document
  that was never uploaded is answered with status 500. The search creates the collection,
  counts no entry in it and asks the engine for \<open>min 5 0 = 0\<close> results; the exception of the
  engine leaves \<open>search\<close>, whose \<open>try\<close> covers the access to the collection only, and
  \<open>RAGService.query\<close>, whose branch for an empty retrieval is not reached. The generator is
  not called.
\<close>
theorem chat_without_chunks_fails:
  "fst (query ex_llm ex_engine ex_encode ex_distance \<lparr>vector_store = ex_empty_store, top_k = 5\<rparr>
          (lit ''doc'') (lit ''q'') STUDENT None) =
     Inl (EngineError (lit ''Number of requested results 0, cannot be negative, or zero.'')) \<and>
   fst (chat ex_llm ex_engine ex_encode ex_distance
          \<lparr>pdf_processor = Some (),
           rag_service = Some \<lparr>vector_store = ex_empty_store, top_k = 5\<rparr>\<rparr>
          \<lparr>document_id = lit ''doc'', question = lit ''q'', explanation_level = STUDENT,
           chat_history = None\<rparr>) =
     Inl (HTTPException 500
            (lit ''Failed to process query: '' @
             lit ''Number of requested results 0, cannot be negative, or zero.'')) \<and>
   snd (snd (chat ex_llm ex_engine ex_encode ex_distance
               \<lparr>pdf_processor = Some (),
                rag_service = Some \<lparr>vector_store = ex_empty_store, top_k = 5\<rparr>\<rparr>
               \<lparr>document_id = lit ''doc'', question = lit ''q'', explanation_level = STUDENT,
                chat_history = None\<rparr>)) = []"
proof -
  let ?svc = "\<lparr>vector_store = ex_empty_store, top_k = 5\<rparr>"
  have inv: "store_inv (vector_store ?svc)"
    by (simp add: ex_empty_store_def store_inv_def)
  have none: "client (vector_store ?svc) (lit ''doc'') = None \<or>
              client (vector_store ?svc) (lit ''doc'') = Some []"
    by (simp add: ex_empty_store_def)
  have name: "client (vector_store ?svc) (lit ''doc'') \<noteq> None \<or>
              name_error ex_engine (lit ''doc'') = None"
    by (simp add: ex_engine_def lit_def)
  have refuse: "n_results_error ex_engine (min (top_k ?svc) 0) =
      Some (EngineError (lit ''Number of requested results 0, cannot be negative, or zero.''))"
    by (simp add: ex_engine_def py_str_int_def lit_def)
  have q: "fst (query ex_llm ex_engine ex_encode ex_distance ?svc (lit ''doc'') (lit ''q'')
                  STUDENT None) =
           Inl (EngineError (lit ''Number of requested results 0, cannot be negative, or zero.''))"
    unfolding query_without_chunks_result [OF inv none name] refuse by simp
  have c: "snd (snd (query ex_llm ex_engine ex_encode ex_distance ?svc (lit ''doc'') (lit ''q'')
                       STUDENT None)) = []"
    by (rule query_without_chunks_no_request [OF inv none])
  have ne: "lit ''q'' \<noteq> []" "py_strip (lit ''q'') \<noteq> []" "lit ''doc'' \<noteq> []"
    by (simp_all add: lit_def py_strip_def is_space_def)
  obtain r svc' calls where run:
    "query ex_llm ex_engine ex_encode ex_distance ?svc (lit ''doc'') (lit ''q'') STUDENT None =
       (r, svc', calls)"
    by (cases "query ex_llm ex_engine ex_encode ex_distance ?svc (lit ''doc'') (lit ''q'')
                 STUDENT None") auto
  with q c have r: "r = Inl (EngineError
        (lit ''Number of requested results 0, cannot be negative, or zero.''))"
    and calls: "calls = []" by simp_all
  have "chat ex_llm ex_engine ex_encode ex_distance
          \<lparr>pdf_processor = Some (), rag_service = Some ?svc\<rparr>
          \<lparr>document_id = lit ''doc'', question = lit ''q'', explanation_level = STUDENT,
           chat_history = None\<rparr> =
        (Inl (HTTPException 500
                (lit ''Failed to process query: '' @
                 lit ''Number of requested results 0, cannot be negative, or zero.'')),
         \<lparr>pdf_processor = Some (), rag_service = Some svc'\<rparr>, [])"
    using ne by (simp add: chat_def run r calls)
  with q show ?thesis by simp
qed

text \<open>
  C10, as the code has it: for a document the database has no collection of and whose
  identifier the engine accepts as a name, a delete reports failure; a search, whatever it
  returns, leaves an empty collection behind, and the delete of the same document then
  reports success.
\<close>
theorem search_creates_collection:
  assumes "store_inv vs" and "client vs d = None" and "name_error eng d = None"
  shows "fst (delete_document vs d) = False \<and>
         client (snd (search eng encode distance vs d q k)) d = Some [] \<and>
         fst (delete_document (snd (search eng encode distance vs d q k)) d) = True"
proof -
  have "fst (delete_document vs d) = False"
    by (simp add: delete_document_absent [OF assms(1,2)])
  moreover
  from search_empty [OF assms(1), of d eng encode distance q k] assms(2,3) obtain vs' where
    s: "snd (search eng encode distance vs d q k) = vs'" and
    cl: "client vs' = (client vs)(d \<mapsto> [])" and inv: "store_inv vs'"
    by auto
  from cl have c: "client vs' d = Some []" by simp
  from delete_document_present [OF inv c] have "fst (delete_document vs' d) = True"
    by auto
  ultimately show ?thesis using s c by simp
qed

theorem search_creates_collection_witness:
  "fst (delete_document ex_empty_store (lit ''doc'')) = False \<and>
   client (snd (search ex_engine ex_encode ex_distance ex_empty_store (lit ''doc'') (lit ''q'') 5))
     (lit ''doc'') = Some [] \<and>
   fst (delete_document
          (snd (search ex_engine ex_encode ex_distance ex_empty_store (lit ''doc'') (lit ''q'') 5))
          (lit ''doc'')) = True"
proof -
  have "name_error ex_engine (lit ''doc'') = None" by (simp add: ex_engine_def lit_def)
  moreover have "store_inv ex_empty_store" by (simp add: ex_empty_store_def store_inv_def)
  moreover have "client ex_empty_store (lit ''doc'') = None" by (simp add: ex_empty_store_def)
  ultimately show ?thesis
    using search_creates_collection
      [of ex_empty_store "lit ''doc''" ex_engine ex_encode ex_distance "lit ''q''" 5]
    by simp
qed

text \<open>
  An identifier the engine refuses as a name: the search takes the branch of its \<open>except\<close>,
  returns nothing and creates nothing, and the delete still reports failure.
\<close>

theorem search_creates_collection_counterexample:
  "client ex_empty_store (lit ''ab'') = None \<and>
   client (snd (search ex_engine ex_encode ex_distance ex_empty_store (lit ''ab'') (lit ''q'') 5))
     (lit ''ab'') = None \<and>
   fst (delete_document
          (snd (search ex_engine ex_encode ex_distance ex_empty_store (lit ''ab'') (lit ''q'') 5))
          (lit ''ab'')) = False"
proof -
  have inv: "store_inv ex_empty_store" by (simp add: ex_empty_store_def store_inv_def)
  have none: "client ex_empty_store (lit ''ab'') = None" by (simp add: ex_empty_store_def)
  have "name_error ex_engine (lit ''ab'') =
      Some (EngineError (lit ''Expected collection name of 3 or more characters''))"
    by (simp add: ex_engine_def lit_def)
  from search_refused [OF inv none this, of ex_encode ex_distance "lit ''q''" 5]
  have "snd (search ex_engine ex_encode ex_distance ex_empty_store (lit ''ab'') (lit ''q'') 5) =
      ex_empty_store"
    by simp
  with none delete_document_absent [OF inv none] show ?thesis by simp
qed

text \<open>
  C8: the delete endpoint answers 404 and leaves the application as it was when the
  database has no collection for the document. Otherwise it answers 204, the collection is
  removed from the database and from the store's dictionary while the others are kept,
  and no later search of that document returns a chunk, whatever the engine does.
\<close>
theorem delete_document_outcomes:
  assumes "rag_service app = Some svc" and "store_inv (vector_store svc)"
  shows "(client (vector_store svc) d = None \<longrightarrow>
            delete_document_endpoint app d =
              (Inl (HTTPException 404 (lit ''Document '' @ d @ lit '' not found'')), app)) \<and>
         (client (vector_store svc) d \<noteq> None \<longrightarrow>
            (\<exists>svc'. delete_document_endpoint app d = (Inr 204, app\<lparr>rag_service := Some svc'\<rparr>) \<and>
                    client (vector_store svc') = (client (vector_store svc))(d := None) \<and>
                    collections (vector_store svc') d = None \<and>
                    (\<forall>eng q k rs.
                       fst (search eng encode distance (vector_store svc') d q k) = Inr rs \<longrightarrow>
                       rs = [])))"
proof (intro conjI impI)
  assume "client (vector_store svc) d = None"
  then have "delete_document (vector_store svc) d = (False, vector_store svc)"
    by (rule delete_document_absent [OF assms(2)])
  then have "rag_delete_document svc d = (False, svc)"
    by (simp add: rag_delete_document_def)
  moreover have "app\<lparr>rag_service := Some svc\<rparr> = app"
    using assms(1) by (cases app) simp
  ultimately show "delete_document_endpoint app d =
      (Inl (HTTPException 404 (lit ''Document '' @ d @ lit '' not found'')), app)"
    using assms(1) by (simp add: delete_document_endpoint_def)
next
  assume "client (vector_store svc) d \<noteq> None"
  then obtain es where es: "client (vector_store svc) d = Some es" by auto
  from delete_document_present [OF assms(2) es] obtain vs' where
    del: "delete_document (vector_store svc) d = (True, vs')" and
    cl: "client vs' = (client (vector_store svc))(d := None)" and
    co: "collections vs' = (collections (vector_store svc))(d := None)" and
    inv: "store_inv vs'"
    by blast
  let ?svc' = "svc\<lparr>vector_store := vs'\<rparr>"
  have e: "delete_document_endpoint app d = (Inr 204, app\<lparr>rag_service := Some ?svc'\<rparr>)"
    using assms(1) del by (simp add: delete_document_endpoint_def rag_delete_document_def)
  have gone: "client vs' d = None \<or> client vs' d = Some []" using cl by simp
  have "\<forall>eng q k rs. fst (search eng encode distance vs' d q k) = Inr rs \<longrightarrow> rs = []"
    using search_no_chunks [OF inv gone] by blast
  with e cl co show "\<exists>svc'. delete_document_endpoint app d =
        (Inr 204, app\<lparr>rag_service := Some svc'\<rparr>) \<and>
      client (vector_store svc') = (client (vector_store svc))(d := None) \<and>
      collections (vector_store svc') d = None \<and>
      (\<forall>eng q k rs. fst (search eng encode distance (vector_store svc') d q k) = Inr rs \<longrightarrow>
         rs = [])"
    by (intro exI [of _ ?svc']) simp
qed

theorem delete_document_outcomes_witness:
  "delete_document_endpoint
     \<lparr>pdf_processor = Some (), rag_service = Some \<lparr>vector_store = ex_store, top_k = 5\<rparr>\<rparr>
     (lit ''nope'') =
     (Inl (HTTPException 404 (lit ''Document '' @ lit ''nope'' @ lit '' not found'')),
      \<lparr>pdf_processor = Some (), rag_service = Some \<lparr>vector_store = ex_store, top_k = 5\<rparr>\<rparr>) \<and>
   (\<exists>svc'. delete_document_endpoint
             \<lparr>pdf_processor = Some (), rag_service = Some \<lparr>vector_store = ex_store, top_k = 5\<rparr>\<rparr>
             (lit ''doc'') =
             (Inr 204, \<lparr>pdf_processor = Some (), rag_service = Some svc'\<rparr>) \<and>
           client (vector_store svc') = Map.empty \<and>
           collections (vector_store svc') (lit ''doc'') = None \<and>
           (\<forall>q k. fst (search ex_engine ex_encode ex_distance (vector_store svc') (lit ''doc'') q k) =
                    Inl (EngineError (lit ''Number of requested results '' @ py_str_int (min k 0) @
                                      lit '', cannot be negative, or zero.''))))"
proof -
  let ?app = "\<lparr>pdf_processor = Some (),
               rag_service = Some \<lparr>vector_store = ex_store, top_k = 5\<rparr>\<rparr>"
  have ne: "lit ''nope'' \<noteq> lit ''doc''" by (simp add: lit_def)
  have absent: "client ex_store (lit ''nope'') = None" using ne by (simp add: ex_store_def)
  have present: "client ex_store (lit ''doc'') \<noteq> None" by (simp add: ex_store_def)
  have rest: "(client ex_store)(lit ''doc'' := None) = Map.empty" by (simp add: ex_store_def)
  have name: "name_error ex_engine (lit ''doc'') = None" by (simp add: ex_engine_def lit_def)
  from delete_document_outcomes
      [of ?app "\<lparr>vector_store = ex_store, top_k = 5\<rparr>" "lit ''nope''" ex_encode ex_distance]
    ex_store_inv absent
  have first: "delete_document_endpoint ?app (lit ''nope'') =
      (Inl (HTTPException 404 (lit ''Document '' @ lit ''nope'' @ lit '' not found'')), ?app)"
    by simp
  from delete_document_outcomes
      [of ?app "\<lparr>vector_store = ex_store, top_k = 5\<rparr>" "lit ''doc''" ex_encode ex_distance]
    ex_store_inv present rest
  obtain svc' where
    d: "delete_document_endpoint ?app (lit ''doc'') =
          (Inr 204, \<lparr>pdf_processor = Some (), rag_service = Some svc'\<rparr>)" and
    cl: "client (vector_store svc') = Map.empty" and
    co: "collections (vector_store svc') (lit ''doc'') = None"
    by auto
  have inv: "store_inv (vector_store svc')"
    using co cl ex_store_inv d
    by (auto simp: delete_document_endpoint_def rag_delete_document_def delete_document_def
          client_delete_collection_def ex_store_def store_inv_def split: if_splits)
  have "fst (search ex_engine ex_encode ex_distance (vector_store svc') (lit ''doc'') q k) =
        Inl (EngineError (lit ''Number of requested results '' @ py_str_int (min k 0) @
                          lit '', cannot be negative, or zero.''))" for q k
  proof -
    have none: "client (vector_store svc') (lit ''doc'') = None \<or>
                client (vector_store svc') (lit ''doc'') = Some []"
      using cl by simp
    have acc: "client (vector_store svc') (lit ''doc'') \<noteq> None \<or>
               name_error ex_engine (lit ''doc'') = None"
      using name by simp
    from search_empty [OF inv none acc, of ex_encode ex_distance q k]
    show ?thesis by (auto simp: ex_engine_def)
  qed
  with first d cl co show ?thesis by blast
qed

section \<open>Chunking: blank and non-blank text\<close>

lemma blank_Nil [simp]: "blank []"
  by (simp add: blank_def)

lemma blank_Cons [simp]: "blank (c # s) \<longleftrightarrow> is_space c \<and> blank s"
  by (auto simp: blank_def)

lemma blank_append [simp]: "blank (s @ t) \<longleftrightarrow> blank s \<and> blank t"
  by (auto simp: blank_def)

lemma is_space_newline [simp]: "is_space 10"
  by (simp add: is_space_def)

lemma blank_dropWhile [simp]: "blank (dropWhile is_space s) \<longleftrightarrow> blank s"
  by (induction s) auto

lemma cons_first_nonblank:
  "\<not> is_space c \<or> (\<exists>p \<in> set ps. \<not> blank p) \<Longrightarrow> \<exists>p \<in> set (cons_first c ps). \<not> blank p"
  by (cases ps) auto

lemma split_paragraphs_nonblank:
  "\<not> blank s \<Longrightarrow> \<exists>p \<in> set (split_paragraphs s). \<not> blank p"
proof (induction s rule: split_paragraphs.induct)
  case 1
  then show ?case by simp
next
  case (2 c)
  then show ?case by simp
next
  case (3 c d cs)
  show ?case
  proof (cases "c = 10 \<and> d = 10")
    case True
    with 3 show ?thesis by auto
  next
    case False
    have "\<not> is_space c \<or> (\<exists>p \<in> set (split_paragraphs (d # cs)). \<not> blank p)"
      using 3(2) "3.prems" False by (cases "is_space c") auto
    then have "\<exists>p \<in> set (cons_first c (split_paragraphs (d # cs))). \<not> blank p"
      by (rule cons_first_nonblank)
    moreover have "split_paragraphs (c # d # cs) = cons_first c (split_paragraphs (d # cs))"
      using False by auto
    ultimately show ?thesis by (simp only:)
  qed
qed

lemma re_split_sentences_nonblank:
  "\<not> blank s \<Longrightarrow> \<exists>p \<in> set (re_split_sentences a s). \<not> blank p"
proof (induction a s rule: re_split_sentences.induct)
  case (1 after)
  then show ?case by simp
next
  case (2 after c cs)
  show ?case
  proof (cases "after \<and> is_space c")
    case True
    with 2 show ?thesis by auto
  next
    case False
    have "\<not> is_space c \<or> (\<exists>p \<in> set (re_split_sentences (is_terminator c) cs). \<not> blank p)"
      using 2(2) "2.prems" False by (cases "is_space c") auto
    then have "\<exists>p \<in> set (cons_first c (re_split_sentences (is_terminator c) cs)). \<not> blank p"
      by (rule cons_first_nonblank)
    moreover have "re_split_sentences after (c # cs) =
        cons_first c (re_split_sentences (is_terminator c) cs)"
      using False by auto
    ultimately show ?thesis by (simp only:)
  qed
qed

lemma split_sentences_nonempty: "\<not> blank s \<Longrightarrow> split_sentences s \<noteq> []"
  using re_split_sentences_nonblank [of s False]
  by (auto simp: split_sentences_def filter_empty_conv py_strip_eq_Nil)

lemma solid_py_strip: "\<not> blank s \<Longrightarrow> solid (py_strip s)"
  by (simp add: solid_def py_strip_eq_Nil py_strip_last)

lemma solid_append: "solid t \<Longrightarrow> solid (s @ t)"
  by (simp add: solid_def)

lemma solid_not_blank: "solid s \<Longrightarrow> \<not> blank s"
  unfolding solid_def blank_def using last_in_set by blast

lemma split_sentences_solid: "t \<in> set (split_sentences s) \<Longrightarrow> solid t"
  by (auto simp: split_sentences_def py_strip_eq_Nil intro: solid_py_strip)

lemma para_step_solid:
  "solid (snd st) \<or> \<not> blank p \<Longrightarrow> solid (snd (para_step cs co st p))"
  by (auto simp: para_step_def Let_def py_strip_eq_Nil intro: solid_py_strip solid_append)

lemma para_loop_solid:
  "solid (snd st) \<or> (\<exists>p \<in> set ps. \<not> blank p) \<Longrightarrow> solid (snd (foldl (para_step cs co) st ps))"
proof (induction ps arbitrary: st)
  case Nil
  then show ?case by simp
next
  case (Cons p ps)
  have "solid (snd (para_step cs co st p)) \<or> (\<exists>p \<in> set ps. \<not> blank p)"
    using Cons.prems para_step_solid [of st p cs co] by auto
  then show ?case using Cons.IH by simp
qed

lemma paragraph_chunks_last:
  assumes "\<not> blank s"
  shows "paragraph_chunks s cs co \<noteq> [] \<and> solid (last (paragraph_chunks s cs co))"
proof -
  let ?st = "foldl (para_step cs co) ([], []) (split_paragraphs s)"
  have "solid (snd ?st)"
    using split_paragraphs_nonblank [OF assms] by (intro para_loop_solid) simp
  then have "\<not> blank (snd ?st)" by (rule solid_not_blank)
  then show ?thesis
    by (simp add: paragraph_chunks_def Let_def py_strip_eq_Nil solid_py_strip)
qed

lemma sentence_step_solid:
  "solid t \<Longrightarrow> solid (snd (sentence_step cs st t))"
  by (simp add: sentence_step_def Let_def solid_append)

lemma sentence_loop_solid:
  "ts \<noteq> [] \<or> solid (snd st) \<Longrightarrow> \<forall>t \<in> set ts. solid t \<Longrightarrow>
   solid (snd (foldl (sentence_step cs) st ts))"
proof (induction ts arbitrary: st)
  case Nil
  then show ?case by simp
next
  case (Cons t ts)
  then have "solid (snd (sentence_step cs st t))" by (simp add: sentence_step_solid)
  with Cons show ?case by simp
qed

lemma resplit_chunk_nonempty:
  assumes "solid c"
  shows "resplit_chunk cs c \<noteq> []"
proof (cases "int (length c) \<le> cs")
  case True
  then show ?thesis by (simp add: resplit_chunk_def)
next
  case False
  let ?st = "foldl (sentence_step cs) ([], []) (split_sentences c)"
  have "split_sentences c \<noteq> []"
    using assms by (intro split_sentences_nonempty solid_not_blank)
  then have "solid (snd ?st)"
    by (intro sentence_loop_solid) (auto intro: split_sentences_solid)
  then have "py_strip (snd ?st) \<noteq> []"
    by (simp add: py_strip_eq_Nil solid_not_blank)
  with False show ?thesis by (simp add: resplit_chunk_def Let_def)
qed

lemma chunk_text_nonempty:
  assumes "\<not> blank s"
  shows "chunk_text s cs co \<noteq> []"
proof -
  from paragraph_chunks_last [OF assms, of cs co] have
    ne: "paragraph_chunks s cs co \<noteq> []" and so: "solid (last (paragraph_chunks s cs co))"
    by auto
  from so have "resplit_chunk cs (last (paragraph_chunks s cs co)) \<noteq> []"
    by (rule resplit_chunk_nonempty)
  moreover have "last (paragraph_chunks s cs co) \<in> set (paragraph_chunks s cs co)"
    using ne by simp
  ultimately have "concat (map (resplit_chunk cs) (paragraph_chunks s cs co)) \<noteq> []"
    by (auto simp: concat_eq_Nil_conv)
  moreover from assms have "s \<noteq> []" "py_strip s \<noteq> []" by (auto simp: py_strip_eq_Nil)
  ultimately show ?thesis by (simp add: chunk_text_def)
qed

text \<open>
  C9: for a text that is empty or has only whitespace in it, \<open>chunk_text\<close> returns no
  chunk, whatever the chunk size and the overlap.
\<close>
theorem chunk_text_of_blank:
  "blank text \<Longrightarrow> chunk_text text chunk_size chunk_overlap = []"
  by (simp add: chunk_text_def py_strip_blank)

theorem chunk_text_of_blank_witness:
  "blank [32, 10, 9] \<and> chunk_text [] 1000 200 = [] \<and> chunk_text [32, 10, 9] 1000 200 = []"
  using chunk_text_of_blank [of "[32, 10, 9]" 1000 200] chunk_text_of_blank [of "[]" 1000 200]
  by (simp add: is_space_def)

section \<open>Uploads\<close>

lemma chunk_text_empty_iff: "chunk_text s cs co = [] \<longleftrightarrow> blank s"
proof
  assume "chunk_text s cs co = []"
  then show "blank s" using chunk_text_nonempty [of s cs co] by blast
next
  assume "blank s"
  then show "chunk_text s cs co = []" by (simp add: chunk_text_def py_strip_blank)
qed

text \<open>
  C2: an upload that passes the checks of the file and whose extracted text is empty or
  only whitespace, or is chunked into no chunk, is answered with status 400, and the
  application, its index included, is as before. The branch of \<open>upload_document\<close> that
  answers 500 for an empty list of chunks is never taken: \<open>chunk_text\<close> returns a chunk
  for every text that is not blank.
\<close>
theorem upload_without_text_rejected:
  assumes "pdf_processor app = Some proc" and "rag_service app = Some svc"
    and "filename upl = Some fname" and "fname \<noteq> []" and "lower_endswith_pdf fname"
    and "file_size upl \<le> MAX_FILE_SIZE"
    and "extract_text pdf = Inr (txt, page_count)"
    and "blank txt \<or> chunk_text txt 1000 200 = []"
  shows "upload_document eng encode app upl doc_id None pdf =
           (Inl (HTTPException 400
                   (lit (''Could not extract text from PDF. '' @
                         ''Please ensure the PDF contains readable text.''))), app)"
proof -
  from assms(8) have "blank txt" by (simp add: chunk_text_empty_iff)
  then have "py_strip txt = []" by (rule py_strip_blank)
  with assms(1-7) show ?thesis
    by (simp add: upload_document_def)
qed

theorem upload_without_text_rejected_witness:
  "upload_document ex_engine ex_encode
     \<lparr>pdf_processor = Some (), rag_service = Some \<lparr>vector_store = ex_store, top_k = 5\<rparr>\<rparr>
     \<lparr>filename = Some (lit ''scan.PDF''), file_size = 2048\<rparr> (lit ''id'') None
     (Inr [[32, 10], []]) =
   (Inl (HTTPException 400
           (lit (''Could not extract text from PDF. '' @
                 ''Please ensure the PDF contains readable text.''))),
    \<lparr>pdf_processor = Some (), rag_service = Some \<lparr>vector_store = ex_store, top_k = 5\<rparr>\<rparr>)"
proof -
  have ex: "extract_text (Inr [[32, 10], []]) = Inr ([], 2)"
    by (simp add: extract_text_def py_strip_def upt_rec is_space_def)
  have pdf: "lower_endswith_pdf (lit ''scan.PDF'')"
    by (simp add: lower_endswith_pdf_def lit_def ascii_lower_def suffix_def)
  show ?thesis
    using upload_without_text_rejected
      [of "\<lparr>pdf_processor = Some (), rag_service = Some \<lparr>vector_store = ex_store, top_k = 5\<rparr>\<rparr>"
          "()" "\<lparr>vector_store = ex_store, top_k = 5\<rparr>"
          "\<lparr>filename = Some (lit ''scan.PDF''), file_size = 2048\<rparr>"
          "lit ''scan.PDF''" "Inr [[32, 10], []]" "[]" 2 ex_engine ex_encode "lit ''id''"]
      ex pdf
    by (simp add: MAX_FILE_SIZE_def lit_def)
qed

section \<open>Chunking: two sentences joined past the chunk size\<close>

lemma dropWhile_no_space: "\<forall>c \<in> set s. \<not> is_space c \<Longrightarrow> dropWhile is_space s = s"
  by (cases s) auto

lemma py_strip_no_space: "\<forall>c \<in> set s. \<not> is_space c \<Longrightarrow> py_strip s = s"
  by (simp add: py_strip_def dropWhile_no_space)

lemma re_split_sentences_no_space:
  "\<forall>c \<in> set w. \<not> is_space c \<Longrightarrow> re_split_sentences a w = [w]"
  by (induction w arbitrary: a) auto

lemma re_split_sentences_two:
  assumes "\<forall>c \<in> set u. \<not> is_space c" and "u \<noteq> []" and "is_terminator (last u)"
    and "\<forall>c \<in> set v. \<not> is_space c" and "is_space x"
  shows "re_split_sentences a (u @ x # v) = [u, v]"
  using assms(1-3)
proof (induction u arbitrary: a)
  case Nil
  then show ?case by simp
next
  case (Cons c u)
  show ?case
  proof (cases "u = []")
    case True
    with Cons.prems assms(4,5) show ?thesis
      by (simp add: dropWhile_no_space re_split_sentences_no_space)
  next
    case False
    with Cons.prems have "re_split_sentences (is_terminator c) (u @ x # v) = [u, v]"
      by (intro Cons.IH) auto
    with Cons.prems show ?thesis by simp
  qed
qed

lemma split_paragraphs_one:
  "\<forall>c \<in> set s. c \<noteq> 10 \<Longrightarrow> split_paragraphs s = [s]"
  by (induction s rule: split_paragraphs.induct) auto

lemma paragraph_chunks_one:
  assumes "split_paragraphs s = [s]" and "py_strip s = s" and "s \<noteq> []"
  shows "paragraph_chunks s cs co = [s]"
  using assms by (simp add: paragraph_chunks_def para_step_def Let_def)

lemma chunk_text_two_sentences:
  assumes u: "\<forall>c \<in> set u. \<not> is_space c" "u \<noteq> []" "is_terminator (last u)"
    and v: "\<forall>c \<in> set v. \<not> is_space c" "v \<noteq> []"
    and fits: "int (length u) + int (length v) \<le> cs"
    and over: "cs < int (length u) + 1 + int (length v)"
  shows "split_sentences (u @ 32 # v) = [u, v] \<and> chunk_text (u @ 32 # v) cs co = [u @ 32 # v]"
proof -
  let ?s = "u @ 32 # v"
  have sp: "is_space 32" by (simp add: is_space_def)
  have nl: "\<not> is_space c \<Longrightarrow> c \<noteq> 10" for c by auto
  have sent: "split_sentences ?s = [u, v]"
    using u v by (simp add: split_sentences_def re_split_sentences_two [OF u v(1) sp] py_strip_no_space)
  have clean: "py_strip ?s = ?s"
    using u v by (intro py_strip_clean) (auto simp: hd_append)
  have "\<forall>c \<in> set ?s. c \<noteq> 10" using u(1) v(1) nl by auto
  then have "split_paragraphs ?s = [?s]" by (rule split_paragraphs_one)
  then have para: "paragraph_chunks ?s cs co = [?s]"
    using clean by (intro paragraph_chunks_one) auto
  have "resplit_chunk cs ?s = [?s]"
    using u(2) fits over clean
    by (simp add: resplit_chunk_def sent sentence_step_def sentence_sep_def Let_def)
  with para clean sent show ?thesis by (simp add: chunk_text_def)
qed

text \<open>
  C1: with the default chunk size 1000 and overlap 200, a text of one paragraph made of a
  sentence of 990 characters, a space and a sentence of 10 characters is returned as one
  chunk of 1001 characters. The chunk is longer than the chunk size and is not a single
  sentence: the test that joins a sentence to the buffer does not count the joining space.
\<close>
theorem chunk_text_exceeds_chunk_size:
  "chunk_text ((replicate 989 97 @ [46]) @ 32 # replicate 10 98) 1000 200 =
     [(replicate 989 97 @ [46]) @ 32 # replicate 10 98] \<and>
   length ((replicate 989 97 @ [46]) @ 32 # replicate 10 98) = 1001 \<and>
   split_sentences ((replicate 989 97 @ [46]) @ 32 # replicate 10 98) =
     [replicate 989 97 @ [46], replicate 10 98] \<and>
   length (replicate 989 97 @ [46]) = 990 \<and> length (replicate 10 (98::nat)) = 10"
proof -
  have "\<forall>c \<in> set (replicate 989 97 @ [46]). \<not> is_space c"
    by (auto simp: is_space_def)
  moreover have "\<forall>c \<in> set (replicate 10 98). \<not> is_space c"
    by (auto simp: is_space_def)
  moreover have "is_terminator (last (replicate 989 97 @ [46]))"
    by (simp add: is_terminator_def)
  ultimately have
    "split_sentences ((replicate 989 97 @ [46]) @ 32 # replicate 10 98) =
       [replicate 989 97 @ [46], replicate 10 98] \<and>
     chunk_text ((replicate 989 97 @ [46]) @ 32 # replicate 10 98) 1000 200 =
       [(replicate 989 97 @ [46]) @ 32 # replicate 10 98]"
    by (intro chunk_text_two_sentences) simp_all
  then show ?thesis by simp
qed

section \<open>Chunking: the overlap between consecutive chunks\<close>

lemma chained_snoc:
  assumes "chained k cs" and "cs \<noteq> [] \<longrightarrow> follows_on k (last cs) c"
  shows "chained k (cs @ [c])"
  unfolding chained_def
proof (intro allI impI)
  fix i
  assume i: "Suc i < length (cs @ [c])"
  show "follows_on k ((cs @ [c]) ! i) ((cs @ [c]) ! Suc i)"
  proof (cases "Suc i < length cs")
    case True
    with assms(1) show ?thesis by (simp add: chained_def nth_append)
  next
    case False
    with i have eq: "Suc i = length cs" by simp
    then have ne: "cs \<noteq> []" by auto
    from eq have "i = length cs - 1" by simp
    then have "cs ! i = last cs" using ne by (simp add: last_conv_nth)
    with eq assms(2) ne show ?thesis by (simp add: nth_append)
  qed
qed

lemma tail_of_stripped:
  "dropWhile P (drop (length (dropWhile P b) - n) (dropWhile P b)) =
   dropWhile P (drop (length b - n) b)"
proof -
  let ?w = "takeWhile P b" and ?d = "dropWhile P b"
  have len: "length b = length ?w + length ?d"
    by (metis length_append takeWhile_dropWhile_id)
  have "drop (length b - n) b = drop (length b - n) (?w @ ?d)" by simp
  also have "\<dots> = drop (length b - n) ?w @ drop (length b - n - length ?w) ?d"
    by (simp only: drop_append)
  finally have split: "drop (length b - n) b =
      drop (length b - n) ?w @ drop (length b - n - length ?w) ?d" .
  have "\<And>x. x \<in> set (drop (length b - n) ?w) \<Longrightarrow> P x"
    by (meson in_set_dropD set_takeWhileD)
  then have "dropWhile P (drop (length b - n) ?w @ drop (length b - n - length ?w) ?d) =
      dropWhile P (drop (length b - n - length ?w) ?d)"
    by (rule dropWhile_append2)
  with split have "dropWhile P (drop (length b - n) b) =
      dropWhile P (drop (length b - n - length ?w) ?d)"
    by (simp only:)
  moreover have "length b - n - length ?w = length ?d - n" using len by simp
  ultimately show ?thesis by simp
qed

lemma overlap_of_stripped:
  "dropWhile is_space (py_last_chars k (dropWhile is_space b)) =
   dropWhile is_space (py_last_chars k b)"
  unfolding py_last_chars_def by (rule tail_of_stripped)

lemma solid_last_chars:
  assumes "solid b" and "0 < k"
  shows "solid (py_last_chars k b)"
proof -
  from assms have lt: "length b - nat k < length b" by (auto simp: solid_def)
  then have "drop (length b - nat k) b \<noteq> []" by simp
  moreover from this have "last (drop (length b - nat k) b) = last b"
    by (simp add: last_drop lt)
  ultimately show ?thesis using assms(1) by (simp add: solid_def py_last_chars_def)
qed

lemma dropWhile_append_solid:
  assumes "solid t"
  shows "dropWhile is_space (t @ x) = dropWhile is_space t @ x"
proof -
  from assms have "last t \<in> set t" and "\<not> is_space (last t)" by (simp_all add: solid_def)
  then show ?thesis by (rule dropWhile_append1)
qed

lemma py_strip_solid: "solid b \<Longrightarrow> py_strip b = dropWhile is_space b"
  unfolding solid_def by (simp add: py_strip_rclean)

lemma follows_on_flush:
  assumes "solid cur" and "0 < k"
  shows "follows_on k (py_strip cur) (dropWhile is_space (py_last_chars k cur @ para_sep @ para))"
proof -
  have "dropWhile is_space (py_last_chars k cur @ para_sep @ para) =
        dropWhile is_space (py_last_chars k cur) @ para_sep @ para"
    using solid_last_chars [OF assms] by (rule dropWhile_append_solid)
  then show ?thesis
    by (simp add: follows_on_def py_strip_solid [OF assms(1)] overlap_of_stripped)
qed

lemma follows_on_extend:
  assumes "solid cur" and "follows_on k c (dropWhile is_space cur)"
  shows "follows_on k c (dropWhile is_space (cur @ x))"
  using assms(2) unfolding follows_on_def dropWhile_append_solid [OF assms(1)]
  by (rule prefix_prefix)

lemma para_step_inv:
  assumes "para_inv k st" and "0 < k"
  shows "para_inv k (para_step cs k st p)"
proof -
  obtain chunks cur where st: "st = (chunks, cur)" by (cases st)
  from assms(1) st have
    c1: "cur = [] \<or> solid cur" and c2: "chained k chunks" and
    c3: "chunks \<noteq> [] \<longrightarrow> solid cur \<and> follows_on k (last chunks) (dropWhile is_space cur)"
    by (simp_all add: para_inv_def)
  let ?para = "py_strip p"
  show ?thesis
  proof (cases "?para = []")
    case True
    with assms(1) st show ?thesis by (simp add: para_step_def)
  next
    case False
    then have sp: "solid ?para" by (simp add: solid_py_strip py_strip_eq_Nil)
    show ?thesis
    proof (cases "cur = []")
      case True
      with c3 have "chunks = []" by (auto simp: solid_def)
      with True False sp st show ?thesis
        by (simp add: para_step_def para_inv_def chained_def)
    next
      case ne: False
      with c1 have sc: "solid cur" by simp
      show ?thesis
      proof (cases "int (length cur) + int (length ?para) > cs")
        case True
        let ?new = "py_last_chars k cur @ para_sep @ ?para"
        have step: "para_step cs k st p = (chunks @ [py_strip cur], ?new)"
          using st False ne True assms(2) by (simp add: para_step_def)
        have "solid ?new" using sp by (simp add: solid_append)
        moreover have "chained k (chunks @ [py_strip cur])"
          using c2 c3 by (intro chained_snoc) (simp_all add: py_strip_solid [OF sc])
        moreover have "follows_on k (py_strip cur) (dropWhile is_space ?new)"
          using sc assms(2) by (rule follows_on_flush)
        ultimately show ?thesis by (simp add: step para_inv_def)
      next
        case fits: False
        let ?new = "cur @ para_sep @ ?para"
        have step: "para_step cs k st p = (chunks, ?new)"
          using st False ne fits by (simp add: para_step_def)
        have "solid ?new" using sp by (simp add: solid_append)
        moreover have "chunks \<noteq> [] \<longrightarrow> follows_on k (last chunks) (dropWhile is_space ?new)"
          using c3 sc by (auto intro: follows_on_extend)
        ultimately show ?thesis using c2 by (simp add: step para_inv_def)
      qed
    qed
  qed
qed

lemma para_loop_inv:
  "para_inv k st \<Longrightarrow> 0 < k \<Longrightarrow> para_inv k (foldl (para_step cs k) st ps)"
  by (induction ps arbitrary: st) (simp_all add: para_step_inv)

lemma paragraph_chunks_chained:
  assumes "0 < k"
  shows "chained k (paragraph_chunks s cs k)"
proof -
  let ?st = "foldl (para_step cs k) ([], []) (split_paragraphs s)"
  have "para_inv k ([], [])" by (simp add: para_inv_def chained_def)
  then have inv: "para_inv k ?st" using assms by (rule para_loop_inv)
  show ?thesis
  proof (cases "py_strip (snd ?st) = []")
    case True
    with inv show ?thesis by (simp add: paragraph_chunks_def Let_def para_inv_def)
  next
    case False
    then have "snd ?st \<noteq> []" by (auto simp: py_strip_def)
    with inv have so: "solid (snd ?st)" by (simp add: para_inv_def)
    have "chained k (fst ?st @ [py_strip (snd ?st)])"
      using inv by (intro chained_snoc) (simp_all add: para_inv_def py_strip_solid [OF so])
    with False show ?thesis by (simp add: paragraph_chunks_def Let_def)
  qed
qed

text \<open>
  C7, as the code has it: when the overlap is positive, every chunk of the paragraph stage
  that has a successor is followed on by it. The successor begins with the last
  \<open>chunk_overlap\<close> characters of the chunk (the whole chunk when it is shorter) without
  their leading whitespace, and then the paragraph separator. The whitespace is lost
  because every chunk is stripped when it is emitted.
\<close>
theorem paragraph_chunks_overlap:
  assumes "0 < chunk_overlap" and "Suc i < length (paragraph_chunks s chunk_size chunk_overlap)"
  shows "prefix (dropWhile is_space
                   (py_last_chars chunk_overlap (paragraph_chunks s chunk_size chunk_overlap ! i)) @
                 para_sep)
           (paragraph_chunks s chunk_size chunk_overlap ! Suc i)"
  using paragraph_chunks_chained [OF assms(1), of s chunk_size] assms(2)
  by (simp add: chained_def follows_on_def)


lemma split_paragraphs_sep:
  "\<forall>c \<in> set u. c \<noteq> 10 \<Longrightarrow> split_paragraphs (u @ 10 # 10 # v) = u # split_paragraphs v"
proof (induction u)
  case Nil
  then show ?case by simp
next
  case (Cons c u)
  then have ih: "split_paragraphs (u @ 10 # 10 # v) = u # split_paragraphs v" by simp
  obtain d ds where ds: "u @ 10 # 10 # v = d # ds" by (cases "u @ 10 # 10 # v") auto
  from Cons.prems have "c \<noteq> 10" by simp
  then have "split_paragraphs (c # d # ds) = cons_first c (split_paragraphs (d # ds))" by simp
  with ih ds show ?case by simp
qed

lemma ex_two_paragraphs_chunks:
  "paragraph_chunks ex_two_paragraphs 1000 200 =
     [replicate 700 97 @ 32 # 98 # replicate 198 98,
      (98 # replicate 198 98) @ 10 # 10 # replicate 200 99]"
proof -
  let ?p1 = "replicate 700 (97::nat) @ 32 # 98 # replicate 198 98"
  let ?p2 = "replicate 200 (99::nat)"
  have "\<forall>c \<in> set ?p1. c \<noteq> 10" by auto
  then have "split_paragraphs ex_two_paragraphs = ?p1 # split_paragraphs ?p2"
    unfolding ex_two_paragraphs_def by (rule split_paragraphs_sep)
  also have "split_paragraphs ?p2 = [?p2]" by (rule split_paragraphs_one) auto
  finally have paras: "split_paragraphs ex_two_paragraphs = [?p1, ?p2]" .
  have s1: "py_strip ?p1 = ?p1"
    by (rule py_strip_clean) (simp_all add: is_space_def)
  have s2: "py_strip ?p2 = ?p2"
    by (rule py_strip_no_space) (auto simp: is_space_def)
  have tail: "py_last_chars 200 ?p1 = 32 # 98 # replicate 198 98"
    by (simp add: py_last_chars_def)
  have "solid ((32 # 98 # replicate 198 98) @ para_sep @ ?p2)"
    by (simp add: solid_def is_space_def)
  then have s3: "py_strip ((32 # 98 # replicate 198 98) @ para_sep @ ?p2) =
      (98 # replicate 198 98) @ 10 # 10 # ?p2"
    by (simp add: py_strip_solid is_space_def para_sep_def)
  then have s4: "py_strip (32 # 98 # replicate 198 98 @ para_sep @ ?p2) =
      98 # replicate 198 98 @ 10 # 10 # ?p2"
    by simp
  show ?thesis
    unfolding paragraph_chunks_def paras
    by (simp add: para_step_def Let_def s1 s2 s4 tail)
qed

text \<open>
  The overlap itself need not be a prefix of the successor: with the defaults, the last 200
  characters of the first chunk of the example begin with a space that the second chunk
  does not have.
\<close>

theorem paragraph_chunks_overlap_counterexample:
  "(0::int) < 200 \<and> Suc 0 < length (paragraph_chunks ex_two_paragraphs 1000 200) \<and>
   \<not> prefix (py_last_chars 200 (paragraph_chunks ex_two_paragraphs 1000 200 ! 0))
             (paragraph_chunks ex_two_paragraphs 1000 200 ! Suc 0)"
  unfolding ex_two_paragraphs_chunks by (simp add: py_last_chars_def)

theorem paragraph_chunks_overlap_witness:
  "prefix ((98 # replicate 198 98) @ para_sep)
     (paragraph_chunks ex_two_paragraphs 1000 200 ! Suc 0)"
proof -
  have "dropWhile is_space
          (py_last_chars 200 (paragraph_chunks ex_two_paragraphs 1000 200 ! 0)) =
        98 # replicate 198 98"
    unfolding ex_two_paragraphs_chunks by (simp add: py_last_chars_def is_space_def)
  moreover have "Suc 0 < length (paragraph_chunks ex_two_paragraphs 1000 200)"
    unfolding ex_two_paragraphs_chunks by simp
  ultimately show ?thesis
    using paragraph_chunks_overlap [of 200 0 ex_two_paragraphs 1000] by simp
qed

lemma chunk_text_small_chunks:
  assumes "\<not> blank s" and "\<forall>c \<in> set (paragraph_chunks s cs co). int (length c) \<le> cs"
  shows "chunk_text s cs co = paragraph_chunks s cs co"
proof -
  have "map (resplit_chunk cs) (paragraph_chunks s cs co) =
        map (\<lambda>c. [c]) (paragraph_chunks s cs co)"
    using assms(2) by (intro map_cong) (simp_all add: resplit_chunk_def)
  then have "concat (map (resplit_chunk cs) (paragraph_chunks s cs co)) =
        concat (map (\<lambda>c. [c]) (paragraph_chunks s cs co))"
    by (simp only:)
  also have "\<dots> = paragraph_chunks s cs co"
    by (induction "paragraph_chunks s cs co") simp_all
  finally have "concat (map (resplit_chunk cs) (paragraph_chunks s cs co)) =
        paragraph_chunks s cs co" .
  moreover from assms(1) have "s \<noteq> []" "py_strip s \<noteq> []" by (auto simp: py_strip_eq_Nil)
  ultimately show ?thesis by (simp add: chunk_text_def)
qed

lemma ex_two_paragraphs_output:
  "chunk_text ex_two_paragraphs 1000 200 = paragraph_chunks ex_two_paragraphs 1000 200"
proof (rule chunk_text_small_chunks)
  show "\<not> blank ex_two_paragraphs"
    by (simp add: ex_two_paragraphs_def is_space_def)
  show "\<forall>c \<in> set (paragraph_chunks ex_two_paragraphs 1000 200). int (length c) \<le> 1000"
    unfolding ex_two_paragraphs_chunks by simp
qed

section \<open>Chunking: how long a chunk can be\<close>

lemma py_strip_idem: "py_strip (py_strip s) = py_strip s"
proof (cases "py_strip s = []")
  case True
  then have "py_strip (py_strip s) = py_strip []" by (simp only:)
  also have "\<dots> = []" by (simp add: py_strip_def)
  finally show ?thesis using True by simp
next
  case False
  then show ?thesis by (intro py_strip_clean py_strip_hd py_strip_last)
qed

lemma split_sentences_stripped: "t \<in> set (split_sentences s) \<Longrightarrow> py_strip t = t"
  by (auto simp: split_sentences_def py_strip_idem)

text \<open>
  The sentence loop keeps every emitted chunk and its buffer either within one character
  of the chunk size or equal to one of the sentences.
\<close>

lemma sentence_step_bound:
  assumes "\<forall>c \<in> set (fst st). int (length c) \<le> cs + 1 \<or> c \<in> S"
    and "snd st = [] \<or> int (length (snd st)) \<le> cs + 1 \<or> snd st \<in> S"
    and "t \<in> S" and "\<forall>t \<in> S. py_strip t = t"
  shows "(\<forall>c \<in> set (fst (sentence_step cs st t)). int (length c) \<le> cs + 1 \<or> c \<in> S) \<and>
         (snd (sentence_step cs st t) = [] \<or>
          int (length (snd (sentence_step cs st t))) \<le> cs + 1 \<or>
          snd (sentence_step cs st t) \<in> S)"
proof (cases "snd st \<noteq> [] \<and> int (length (snd st)) + int (length t) > cs")
  case True
  have "int (length (py_strip (snd st))) \<le> cs + 1 \<or> py_strip (snd st) \<in> S"
  proof (cases "snd st \<in> S")
    case True
    with assms(4) show ?thesis by simp
  next
    case False
    with True assms(2) have "int (length (snd st)) \<le> cs + 1" by simp
    with length_py_strip [of "snd st"] show ?thesis by simp
  qed
  with True assms(1,3) show ?thesis by (simp add: sentence_step_def Let_def)
next
  case False
  with assms(1,3) show ?thesis
    by (auto simp: sentence_step_def Let_def sentence_sep_def)
qed

lemma sentence_loop_bound:
  assumes "\<forall>c \<in> set (fst st). int (length c) \<le> cs + 1 \<or> c \<in> S"
    and "snd st = [] \<or> int (length (snd st)) \<le> cs + 1 \<or> snd st \<in> S"
    and "set ts \<subseteq> S" and "\<forall>t \<in> S. py_strip t = t"
  shows "(\<forall>c \<in> set (fst (foldl (sentence_step cs) st ts)). int (length c) \<le> cs + 1 \<or> c \<in> S) \<and>
         (snd (foldl (sentence_step cs) st ts) = [] \<or>
          int (length (snd (foldl (sentence_step cs) st ts))) \<le> cs + 1 \<or>
          snd (foldl (sentence_step cs) st ts) \<in> S)"
  using assms(1-3)
proof (induction ts arbitrary: st)
  case Nil
  then show ?case by simp
next
  case (Cons t ts)
  from Cons.prems have t: "t \<in> S" and ts: "set ts \<subseteq> S" by auto
  from sentence_step_bound [OF Cons.prems(1,2) t assms(4)]
  have "(\<forall>c \<in> set (fst (sentence_step cs st t)). int (length c) \<le> cs + 1 \<or> c \<in> S)"
    and "snd (sentence_step cs st t) = [] \<or>
         int (length (snd (sentence_step cs st t))) \<le> cs + 1 \<or>
         snd (sentence_step cs st t) \<in> S"
    by blast+
  from Cons.IH [OF this ts] show ?case by simp
qed

lemma resplit_chunk_bound:
  assumes "c \<in> set (resplit_chunk cs p)"
  shows "int (length c) \<le> cs + 1 \<or> c \<in> set (split_sentences p)"
proof (cases "int (length p) \<le> cs")
  case True
  with assms show ?thesis by (simp add: resplit_chunk_def)
next
  case False
  let ?S = "set (split_sentences p)"
  let ?st = "foldl (sentence_step cs) ([], []) (split_sentences p)"
  have fixed: "\<forall>t \<in> ?S. py_strip t = t" by (simp add: split_sentences_stripped)
  have inv: "(\<forall>c \<in> set (fst ?st). int (length c) \<le> cs + 1 \<or> c \<in> ?S) \<and>
             (snd ?st = [] \<or> int (length (snd ?st)) \<le> cs + 1 \<or> snd ?st \<in> ?S)"
    by (rule sentence_loop_bound [OF _ _ _ fixed]) simp_all
  have last: "int (length (py_strip (snd ?st))) \<le> cs + 1 \<or> py_strip (snd ?st) \<in> ?S"
    if "py_strip (snd ?st) \<noteq> []"
  proof (cases "snd ?st \<in> ?S")
    case True
    with fixed show ?thesis by simp
  next
    case False
    from that have "snd ?st \<noteq> []" by (auto simp: py_strip_def)
    with False inv have "int (length (snd ?st)) \<le> cs + 1" by blast
    with length_py_strip [of "snd ?st"] show ?thesis by simp
  qed
  from assms False have "c \<in> set (fst ?st) \<or> (py_strip (snd ?st) \<noteq> [] \<and> c = py_strip (snd ?st))"
    by (auto simp: resplit_chunk_def Let_def split: if_splits)
  with inv last show ?thesis by blast
qed

lemma chunk_text_bound:
  assumes "c \<in> set (chunk_text s cs co)"
  shows "int (length c) \<le> cs + 1 \<or>
         (\<exists>p \<in> set (paragraph_chunks s cs co). c \<in> set (split_sentences p))"
proof -
  from assms obtain p where "p \<in> set (paragraph_chunks s cs co)" "c \<in> set (resplit_chunk cs p)"
    by (auto simp: chunk_text_def split: if_splits)
  with resplit_chunk_bound [of c cs p] show ?thesis by blast
qed

end
